theory Spec2Isabelle
  imports Complex_Main "HOL-Library.Product_Lexorder"
begin

section \<open>Dates, instants and the random source\<close>

text \<open>
  A \<^verbatim>\<open>datetime.date\<close> is modelled by its proleptic Gregorian ordinal
  (\<^verbatim>\<open>date.toordinal()\<close>): comparison of dates is comparison of ordinals, and
  \<^verbatim>\<open>d + timedelta(days=k)\<close> is addition of ordinals, which raises
  \<^verbatim>\<open>OverflowError\<close> when the result leaves \<^verbatim>\<open>date.min .. date.max\<close>.
  A naive \<^verbatim>\<open>datetime.datetime\<close> is the pair of its date and its time of day
  (hour, minute, second, microsecond); Python compares two of them field by field,
  which is the lexicographic order on the tuple.
\<close>

type_synonym date = int

type_synonym time_of_day = "nat \<times> nat \<times> nat \<times> nat"

type_synonym datetime = "date \<times> time_of_day"

datatype error =
    OverflowError
  | CalledProcessError int "string list"
  | FileNotFoundError
  | OSError

definition MINORD :: int where
  "MINORD = 1"

definition MAXORD :: int where
  "MAXORD = 3652059"

definition valid_date :: "date \<Rightarrow> bool" where
  "valid_date d = (MINORD \<le> d \<and> d \<le> MAXORD)"

definition valid_datetime :: "datetime \<Rightarrow> bool" where
  "valid_datetime t =
     (case t of (d, h, m, s, us) \<Rightarrow>
        valid_date d \<and> h < 24 \<and> m < 60 \<and> s < 60 \<and> us < 1000000)"

definition dt_date :: "datetime \<Rightarrow> date" where
  "dt_date t = fst t"

definition combine :: "date \<Rightarrow> nat \<times> nat \<times> nat \<Rightarrow> datetime" where
  "combine d t = (case t of (h, m, s) \<Rightarrow> (d, h, m, s, 0))"

definition date_add_days :: "date \<Rightarrow> int \<Rightarrow> error + date" where
  "date_add_days d k =
     (let r = d + k in
      if MINORD \<le> r \<and> r \<le> MAXORD then Inr r else Inl OverflowError)"

text \<open>
  The global generator of \<^verbatim>\<open>random\<close> is an arbitrary sequence of raw draws;
  \<^verbatim>\<open>random.randint(a, b)\<close> consumes one draw and returns an integer of
  \<open>a..b\<close>. Every sequence of in-range results is produced by some sequence of raw
  draws, so quantifying over the raw sequence covers every run.
\<close>

type_synonym rng = "nat \<Rightarrow> nat"

definition randint :: "int \<Rightarrow> int \<Rightarrow> rng \<Rightarrow> int \<times> rng" where
  "randint a b g = (a + int (g 0 mod nat (b - a + 1)), \<lambda>i. g (Suc i))"

section \<open>generate\_commit\_dates\<close>

text \<open>
  The body of \<^verbatim>\<open>for _ in range(commits_this_week)\<close>: one commit instant is drawn
  and appended to \<^verbatim>\<open>commit_dates\<close>.
\<close>

fun week_commits ::
  "nat \<Rightarrow> date \<Rightarrow> datetime \<Rightarrow> rng \<Rightarrow> datetime list \<Rightarrow> error + (datetime list \<times> rng)" where
  "week_commits 0 current end_date g commit_dates = Inr (commit_dates, g)"
| "week_commits (Suc n) current end_date g commit_dates =
     (case randint 0 6 g of (day_offset, g1) \<Rightarrow>
      (case date_add_days current day_offset of
         Inl e \<Rightarrow> Inl e
       | Inr commit_day0 \<Rightarrow>
          (let commit_day =
                 (if commit_day0 > dt_date end_date then dt_date end_date else commit_day0)
           in case randint 9 20 g1 of (hour, g2) \<Rightarrow>
              (case randint 0 59 g2 of (minute, g3) \<Rightarrow>
              (case randint 0 59 g3 of (second, g4) \<Rightarrow>
                 (let commit_datetime = combine commit_day (nat hour, nat minute, nat second)
                  in week_commits n current end_date g4
                       (commit_dates @ [commit_datetime])))))))"

text \<open>
  The loop \<^verbatim>\<open>while current < end_date.date()\<close>. It returns the final value of
  \<^verbatim>\<open>current\<close> with the list, so that the number of rounds can be read off.
\<close>

function weeks_loop ::
  "date \<Rightarrow> datetime \<Rightarrow> rng \<Rightarrow> datetime list \<Rightarrow> error + (date \<times> datetime list \<times> rng)" where
  "weeks_loop current end_date g commit_dates =
     (if current < dt_date end_date then
        (case randint 3 5 g of (commits_this_week, g1) \<Rightarrow>
         (case week_commits (nat commits_this_week) current end_date g1 commit_dates of
            Inl e \<Rightarrow> Inl e
          | Inr (commit_dates', g2) \<Rightarrow>
             (case date_add_days current 7 of
                Inl e \<Rightarrow> Inl e
              | Inr current' \<Rightarrow> weeks_loop current' end_date g2 commit_dates')))
      else Inr (current, commit_dates, g))"
  by pat_completeness auto
termination
  by (relation "measure (\<lambda>(current, end_date, g, commit_dates). nat (dt_date end_date - current))")
     (auto simp: date_add_days_def Let_def split: if_splits)

definition generate_commit_dates :: "date \<Rightarrow> datetime \<Rightarrow> rng \<Rightarrow> error + datetime list" where
  "generate_commit_dates start_date end_date g =
     (case weeks_loop start_date end_date g [] of
        Inl e \<Rightarrow> Inl e
      | Inr (current, commit_dates, g') \<Rightarrow> Inr (sort commit_dates))"


section \<open>The process, its files and the external tool\<close>

text \<open>
  What the script can observe and change: its own environment (\<^verbatim>\<open>os.environ\<close>),
  the files of the working directory, and an append-only trace of everything it does
  in order (file appends, \<^verbatim>\<open>subprocess.run\<close> calls with the environment the
  child receives and its result, lines printed). The behaviour of the outside world
  is given in advance: \<open>tool w i\<close> is the result of the \<open>i\<close>-th next external call
  and \<open>disk w i\<close> says whether the \<open>i\<close>-th next file append succeeds.
\<close>

datatype proc_result = Exited int | NoSuchProgram

datatype event =
    Append string string
  | Run "string list" "string \<rightharpoonup> string" proc_result
  | Print string

record world =
  environ :: "string \<rightharpoonup> string"
  files :: "string \<rightharpoonup> string"
  trace :: "event list"
  tool :: "nat \<Rightarrow> proc_result"
  disk :: "nat \<Rightarrow> bool"

text \<open>
  The calendar functions of the standard library that turn a date into text:
  \<^verbatim>\<open>commit_date.strftime("%Y-%m-%dT%H:%M:%S")\<close> and \<^verbatim>\<open>str(date)\<close>.
\<close>

record calendar =
  strftime :: "datetime \<Rightarrow> string"
  str_date :: "date \<Rightarrow> string"

fun str_nat :: "nat \<Rightarrow> string" where
  "str_nat n =
     (if n < 10 then [char_of (48 + n)]
      else str_nat (n div 10) @ [char_of (48 + n mod 10)])"

declare str_nat.simps [simp del]

definition print_line :: "string \<Rightarrow> world \<Rightarrow> world" where
  "print_line s w = w\<lparr>trace := trace w @ [Print s]\<rparr>"

text \<open>\<^verbatim>\<open>with open(filename, "a") as f: f.write(text)\<close>\<close>

definition file_append :: "string \<Rightarrow> string \<Rightarrow> world \<Rightarrow> (error + unit) \<times> world" where
  "file_append filename text w =
     (if disk w 0 then
        (Inr (),
         w\<lparr>files := (files w)(filename \<mapsto>
                 (case files w filename of None \<Rightarrow> [] | Some old \<Rightarrow> old) @ text),
           trace := trace w @ [Append filename text],
           disk := (\<lambda>i. disk w (Suc i))\<rparr>)
      else (Inl OSError, w\<lparr>disk := (\<lambda>i. disk w (Suc i))\<rparr>))"

text \<open>
  \<^verbatim>\<open>subprocess.run(argv, env=env, check=True)\<close>: without \<^verbatim>\<open>env\<close> the child
  inherits the environment of the process. A non-zero exit status raises
  \<^verbatim>\<open>CalledProcessError\<close>, a program that cannot be started raises
  \<^verbatim>\<open>FileNotFoundError\<close>.
\<close>

definition check_result :: "string list \<Rightarrow> proc_result \<Rightarrow> error + unit" where
  "check_result argv r =
     (case r of
        NoSuchProgram \<Rightarrow> Inl FileNotFoundError
      | Exited rc \<Rightarrow> if rc = 0 then Inr () else Inl (CalledProcessError rc argv))"

definition subprocess_run ::
  "string list \<Rightarrow> (string \<rightharpoonup> string) option \<Rightarrow> world \<Rightarrow> (error + unit) \<times> world" where
  "subprocess_run argv env w =
     (let child_env = (case env of None \<Rightarrow> environ w | Some e \<Rightarrow> e);
          r = tool w 0
      in (check_result argv r,
          w\<lparr>trace := trace w @ [Run argv child_env r],
            tool := (\<lambda>i. tool w (Suc i))\<rparr>))"

section \<open>make\_commit and main\<close>

definition make_commit :: "calendar \<Rightarrow> datetime \<Rightarrow> world \<Rightarrow> (error + unit) \<times> world" where
  "make_commit cal commit_date w =
     (let commit_date_str = strftime cal commit_date;
          filename = ''dummy.txt''
      in case file_append filename (''Fake commit on '' @ commit_date_str @ [CHR 0x0A]) w of
           (Inl e, w1) \<Rightarrow> (Inl e, w1)
         | (Inr u1, w1) \<Rightarrow>
            (case subprocess_run [''git'', ''add'', filename] None w1 of
               (Inl e, w2) \<Rightarrow> (Inl e, w2)
             | (Inr u2, w2) \<Rightarrow>
                (let env0 = environ w2;
                     env1 = env0(''GIT_AUTHOR_DATE'' \<mapsto> commit_date_str);
                     env = env1(''GIT_COMMITTER_DATE'' \<mapsto> commit_date_str);
                     commit_message = ''Fake commit for '' @ commit_date_str
                 in case subprocess_run
                           [''git'', ''commit'', ''--allow-empty'', ''-m'', commit_message]
                           (Some env) w2 of
                      (Inl e, w3) \<Rightarrow> (Inl e, w3)
                    | (Inr u3, w3) \<Rightarrow>
                       (Inr (), print_line (''Committed: '' @ commit_message) w3))))"

text \<open>\<^verbatim>\<open>for commit_date in commit_dates: make_commit(commit_date)\<close>\<close>

fun commit_all :: "calendar \<Rightarrow> datetime list \<Rightarrow> world \<Rightarrow> (error + unit) \<times> world" where
  "commit_all cal [] w = (Inr (), w)"
| "commit_all cal (commit_date # rest) w =
     (case make_commit cal commit_date w of
        (Inl e, w') \<Rightarrow> (Inl e, w')
      | (Inr u, w') \<Rightarrow> commit_all cal rest w')"

text \<open>\<^verbatim>\<open>datetime.date(2024, 6, 1).toordinal()\<close>\<close>

definition START_DATE :: date where
  "START_DATE = 739038"

text \<open>
  \<^verbatim>\<open>main\<close>, with \<^verbatim>\<open>datetime.datetime.now()\<close> and the state of the random generator
  as inputs. Only \<^verbatim>\<open>CalledProcessError\<close> of the first call is caught; every other
  exception leaves \<^verbatim>\<open>main\<close>.
\<close>

definition main :: "calendar \<Rightarrow> datetime \<Rightarrow> rng \<Rightarrow> world \<Rightarrow> (error + unit) \<times> world" where
  "main cal now g w =
     (case subprocess_run [''git'', ''rev-parse'', ''--is-inside-work-tree''] None w of
        (Inl e, w1) \<Rightarrow>
          (case e of
             CalledProcessError rc argv \<Rightarrow>
               (Inr (),
                print_line ''Error: This script must be run inside a Git repository.'' w1)
           | OverflowError \<Rightarrow> (Inl e, w1)
           | FileNotFoundError \<Rightarrow> (Inl e, w1)
           | OSError \<Rightarrow> (Inl e, w1))
      | (Inr u0, w1) \<Rightarrow>
          (let start_date = START_DATE;
               end_date = now
           in case generate_commit_dates start_date end_date g of
                Inl e \<Rightarrow> (Inl e, w1)
              | Inr commit_dates \<Rightarrow>
                 (let w2 = print_line
                        (''Generating '' @ str_nat (length commit_dates) @
                         '' fake commits from '' @ str_date cal start_date @
                         '' to '' @ str_date cal (dt_date end_date) @ ''...'') w1
                  in case commit_all cal commit_dates w2 of
                       (Inl e, w3) \<Rightarrow> (Inl e, w3)
                     | (Inr u1, w3) \<Rightarrow>
                        (case subprocess_run [''git'', ''push''] None w3 of
                           (Inl e, w4) \<Rightarrow> (Inl e, w4)
                         | (Inr u2, w4) \<Rightarrow>
                            (Inr (), print_line ''All fake commits have been pushed.'' w4)))))"

text \<open>
  The commits the external tool has recorded, read off the trace: each successful
  \<^verbatim>\<open>git commit\<close> call records one commit, with the message given after \<^verbatim>\<open>-m\<close> and
  the author and committer dates the child found in its environment (\<open>None\<close>: the
  tool falls back to its own clock).
\<close>

record commit =
  message :: string
  authored_at :: "string option"
  committed_at :: "string option"

fun commit_of :: "event \<Rightarrow> commit list" where
  "commit_of (Run argv env r) =
     (if r = Exited 0 \<and> take 2 argv = [''git'', ''commit'']
      then [\<lparr>message = last argv,
             authored_at = env ''GIT_AUTHOR_DATE'',
             committed_at = env ''GIT_COMMITTER_DATE''\<rparr>]
      else [])"
| "commit_of (Append filename text) = []"
| "commit_of (Print s) = []"

definition commits_made :: "event list \<Rightarrow> commit list" where
  "commits_made evs = concat (map commit_of evs)"


section \<open>Notions used to state the properties\<close>

text \<open>
  The number of rounds of the weekly loop for a window start \<open>current\<close> and the
  date \<open>d\<close> of the end instant: the least \<open>k\<close> with \<open>current + 7 * k \<ge> d\<close>.
\<close>

definition weeks_of :: "date \<Rightarrow> date \<Rightarrow> int" where
  "weeks_of current d = (if current < d then (d - current + 6) div 7 else 0)"

text \<open>What one drawn instant of the week starting at \<open>current\<close> looks like.\<close>

definition commit_ok :: "date \<Rightarrow> datetime \<Rightarrow> datetime \<Rightarrow> bool" where
  "commit_ok current end_date t =
     (case t of (d, h, m, s, us) \<Rightarrow>
        current \<le> d \<and> d \<le> dt_date end_date \<and> d \<le> current + 6 \<and>
        9 \<le> h \<and> h \<le> 20 \<and> m \<le> 59 \<and> s \<le> 59 \<and> us = 0)"

definition in_window :: "date \<Rightarrow> datetime \<Rightarrow> datetime \<Rightarrow> bool" where
  "in_window start_date end_date t =
     (case t of (d, h, m, s, us) \<Rightarrow>
        start_date \<le> d \<and> d \<le> dt_date end_date \<and>
        9 \<le> h \<and> h \<le> 20 \<and> m \<le> 59 \<and> s \<le> 59 \<and> us = 0)"


definition rng_count :: rng where
  "rng_count = (\<lambda>i. i + 2)"

text \<open>The commands and texts of \<^verbatim>\<open>make_commit\<close> and \<^verbatim>\<open>main\<close>, by name.\<close>

definition add_argv :: "string list" where
  "add_argv = [''git'', ''add'', ''dummy.txt'']"

definition commit_argv :: "string \<Rightarrow> string list" where
  "commit_argv s = [''git'', ''commit'', ''--allow-empty'', ''-m'', ''Fake commit for '' @ s]"

definition push_argv :: "string list" where
  "push_argv = [''git'', ''push'']"

definition revparse_argv :: "string list" where
  "revparse_argv = [''git'', ''rev-parse'', ''--is-inside-work-tree'']"

definition commit_env :: "(string \<rightharpoonup> string) \<Rightarrow> string \<Rightarrow> (string \<rightharpoonup> string)" where
  "commit_env env0 s = env0(''GIT_AUTHOR_DATE'' \<mapsto> s, ''GIT_COMMITTER_DATE'' \<mapsto> s)"

definition fake_line :: "string \<Rightarrow> string" where
  "fake_line s = ''Fake commit on '' @ s @ [CHR 0x0A]"

definition generating_line :: "calendar \<Rightarrow> datetime \<Rightarrow> nat \<Rightarrow> string" where
  "generating_line cal now n =
     ''Generating '' @ str_nat n @ '' fake commits from '' @ str_date cal START_DATE @
     '' to '' @ str_date cal (dt_date now) @ ''...''"

text \<open>
  What one successful \<^verbatim>\<open>make_commit\<close> adds to the trace, for the environment
  \<open>env0\<close> of the process, and the commit the external tool records for it.
\<close>

definition commit_steps :: "calendar \<Rightarrow> (string \<rightharpoonup> string) \<Rightarrow> datetime \<Rightarrow> event list" where
  "commit_steps cal env0 d =
     [Append ''dummy.txt'' (fake_line (strftime cal d)),
      Run add_argv env0 (Exited 0),
      Run (commit_argv (strftime cal d)) (commit_env env0 (strftime cal d)) (Exited 0),
      Print (''Committed: Fake commit for '' @ strftime cal d)]"

definition recorded :: "calendar \<Rightarrow> datetime \<Rightarrow> commit" where
  "recorded cal d =
     \<lparr>message = ''Fake commit for '' @ strftime cal d,
      authored_at = Some (strftime cal d),
      committed_at = Some (strftime cal d)\<rparr>"

text \<open>The content of the tracked file, empty when the file does not exist.\<close>

definition tracked :: "world \<Rightarrow> string" where
  "tracked w = (case files w ''dummy.txt'' of None \<Rightarrow> [] | Some old \<Rightarrow> old)"

text \<open>The command lines run and the texts appended to files, read off a trace.\<close>

fun run_of :: "event \<Rightarrow> string list list" where
  "run_of (Run argv env r) = [argv]"
| "run_of (Append filename text) = []"
| "run_of (Print s) = []"

definition runs :: "event list \<Rightarrow> string list list" where
  "runs evs = concat (map run_of evs)"

fun append_of :: "event \<Rightarrow> string list" where
  "append_of (Append filename text) = [text]"
| "append_of (Run argv env r) = []"
| "append_of (Print s) = []"

definition appended :: "event list \<Rightarrow> string list" where
  "appended evs = concat (map append_of evs)"

text \<open>
  \<open>advanced w k a evs w'\<close>: the world \<open>w'\<close> is \<open>w\<close> after \<open>k\<close> external calls and
  \<open>a\<close> file appends that left the events \<open>evs\<close>, with the environment of the process
  unchanged.
\<close>

definition advanced :: "world \<Rightarrow> nat \<Rightarrow> nat \<Rightarrow> event list \<Rightarrow> world \<Rightarrow> bool" where
  "advanced w k a evs w' =
     (environ w' = environ w \<and> trace w' = trace w @ evs \<and>
      (\<forall>i. tool w' i = tool w (i + k)) \<and> (\<forall>i. disk w' i = disk w (i + a)))"

text \<open>The part of \<^verbatim>\<open>main\<close> that follows the line announcing the schedule.\<close>

definition after_commits :: "calendar \<Rightarrow> datetime list \<Rightarrow> world \<Rightarrow> (error + unit) \<times> world" where
  "after_commits cal ts w2 =
     (case commit_all cal ts w2 of
        (Inl e, w3) \<Rightarrow> (Inl e, w3)
      | (Inr u1, w3) \<Rightarrow>
          (case subprocess_run [''git'', ''push''] None w3 of
             (Inl e, w4) \<Rightarrow> (Inl e, w4)
           | (Inr u2, w4) \<Rightarrow>
               (Inr (), print_line ''All fake commits have been pushed.'' w4)))"

text \<open>
  An external call sees the environment of the process, and a \<^verbatim>\<open>git commit\<close> call
  sees it with the two date variables set to the date of its own message (the text
  after the 16 characters of \<^verbatim>\<open>Fake commit for \<close>).
\<close>

fun scoped_env :: "(string \<rightharpoonup> string) \<Rightarrow> event \<Rightarrow> bool" where
  "scoped_env env0 (Run argv env r) =
     (if take 2 argv = [''git'', ''commit'']
      then env = commit_env env0 (drop 16 (last argv))
      else env = env0)"
| "scoped_env env0 (Append filename text) = True"
| "scoped_env env0 (Print s) = True"

definition scoped_step :: "world \<Rightarrow> world \<Rightarrow> bool" where
  "scoped_step w w' =
     (environ w' = environ w \<and>
      (\<exists>new. trace w' = trace w @ new \<and> list_all (scoped_env (environ w)) new))"

text \<open>
  Concrete inputs for the runs below: a calendar that prints the ordinal of the day
  in place of year, month and day, a world where every call succeeds, and worlds where
  the fifth call (the commit of the second instant), every call with status 128, and
  every call with status 1 fail; the schedule drawn from \<open>rng_count\<close> for one week.
\<close>

definition cal0 :: calendar where
  "cal0 =
     \<lparr>strftime = (\<lambda>t. case t of (d, h, m, s, us) \<Rightarrow>
                   str_nat (nat d) @ ''T'' @ str_nat h @ '':'' @ str_nat m @ '':'' @ str_nat s),
      str_date = (\<lambda>d. str_nat (nat d))\<rparr>"

definition world0 :: world where
  "world0 = \<lparr>environ = Map.empty, files = Map.empty, trace = [],
             tool = (\<lambda>i. Exited 0), disk = (\<lambda>i. True)\<rparr>"

definition world_commit2_fails :: world where
  "world_commit2_fails = world0\<lparr>tool := (\<lambda>i. if i = 4 then Exited 1 else Exited 0)\<rparr>"

definition world_no_repo :: world where
  "world_no_repo = world0\<lparr>tool := (\<lambda>i. Exited 128)\<rparr>"

definition world_stage_fails :: world where
  "world_stage_fails = world0\<lparr>tool := (\<lambda>i. Exited 1)\<rparr>"

definition week1 :: "datetime list" where
  "week1 = [(739038, 17, 9, 10, 0), (739039, 13, 17, 18, 0), (739041, 13, 5, 6, 0),
            (739042, 9, 13, 14, 0), (739043, 17, 21, 22, 0)]"

section \<open>Properties of the date sampler\<close>

declare weeks_loop.simps [simp del]

lemma weeks_loop_done:
  "\<not> current < dt_date end_date \<Longrightarrow>
   weeks_loop current end_date g acc = Inr (current, acc, g)"
  by (subst weeks_loop.simps) simp

lemma weeks_loop_round:
  "current < dt_date end_date \<Longrightarrow> randint 3 5 g = (c, g1) \<Longrightarrow>
   week_commits (nat c) current end_date g1 acc = Inr (acc1, g2) \<Longrightarrow>
   date_add_days current 7 = Inr current' \<Longrightarrow>
   weeks_loop current end_date g acc = weeks_loop current' end_date g2 acc1"
  by (subst weeks_loop.simps) simp

lemma weeks_loop_Inr_round:
  assumes "weeks_loop current end_date g acc = Inr res" and "current < dt_date end_date"
    and "randint 3 5 g = (c, g1)"
  shows "\<exists>acc1 g2. week_commits (nat c) current end_date g1 acc = Inr (acc1, g2) \<and>
           date_add_days current 7 = Inr (current + 7) \<and>
           weeks_loop (current + 7) end_date g2 acc1 = Inr res"
proof -
  have u: "(case week_commits (nat c) current end_date g1 acc of
            Inl e \<Rightarrow> Inl e
          | Inr (commit_dates', g2) \<Rightarrow>
             (case date_add_days current 7 of
                Inl e \<Rightarrow> Inl e
              | Inr current' \<Rightarrow> weeks_loop current' end_date g2 commit_dates')) = Inr res"
    using assms by (subst (asm) weeks_loop.simps) simp
  then obtain acc1 g2 where
    wk: "week_commits (nat c) current end_date g1 acc = Inr (acc1, g2)"
    by (cases "week_commits (nat c) current end_date g1 acc") auto
  from u wk obtain current' where add: "date_add_days current 7 = Inr current'"
    by (cases "date_add_days current 7") auto
  have cur: "current' = current + 7"
    using add by (simp add: date_add_days_def Let_def split: if_splits)
  from u wk add cur show ?thesis by simp
qed

lemma randint_range:
  assumes "a \<le> b" and "randint a b g = (r, g')"
  shows "a \<le> r \<and> r \<le> b"
proof -
  have pos: "0 < nat (b - a + 1)" using assms(1) by simp
  have "g 0 mod nat (b - a + 1) < nat (b - a + 1)"
    using pos by (rule mod_less_divisor)
  then have "int (g 0 mod nat (b - a + 1)) < b - a + 1"
    using assms(1) by linarith
  moreover have "r = a + int (g 0 mod nat (b - a + 1))"
    using assms(2) by (simp add: randint_def)
  ultimately show ?thesis by simp
qed

text \<open>Every value of the range is the result of some draw.\<close>

lemma randint_onto:
  assumes "a \<le> r" and "r \<le> b"
  shows "fst (randint a b (\<lambda>i. nat (r - a))) = r"
proof -
  have "nat (r - a) < nat (b - a + 1)" using assms by linarith
  then have "nat (r - a) mod nat (b - a + 1) = nat (r - a)" by (rule mod_less)
  then show ?thesis using assms(1) by (simp add: randint_def)
qed

lemma week_commits_props:
  assumes "current \<le> dt_date end_date"
    and "week_commits n current end_date g acc = Inr (acc', g')"
  shows "\<exists>new. acc' = acc @ new \<and> length new = n \<and>
           (\<forall>t\<in>set new. commit_ok current end_date t)"
  using assms
proof (induction n arbitrary: g acc)
  case 0
  then show ?case by simp
next
  case (Suc n)
  obtain day_offset g1 where r1: "randint 0 6 g = (day_offset, g1)" by force
  obtain hour g2 where r2: "randint 9 20 g1 = (hour, g2)" by force
  obtain minute g3 where r3: "randint 0 59 g2 = (minute, g3)" by force
  obtain second g4 where r4: "randint 0 59 g3 = (second, g4)" by force
  from Suc.prems(2) r1 obtain commit_day0 where
    add: "date_add_days current day_offset = Inr commit_day0"
    by (auto split: sum.splits)
  define commit_day where
    "commit_day = (if commit_day0 > dt_date end_date then dt_date end_date else commit_day0)"
  define t where "t = combine commit_day (nat hour, nat minute, nat second)"
  have rec: "week_commits n current end_date g4 (acc @ [t]) = Inr (acc', g')"
    using Suc.prems(2) r1 r2 r3 r4 add
    by (simp add: Let_def commit_day_def t_def)
  from Suc.IH[OF Suc.prems(1) rec] obtain new where
    new: "acc' = (acc @ [t]) @ new" "length new = n"
         "\<forall>u\<in>set new. commit_ok current end_date u"
    by blast
  have off: "0 \<le> day_offset \<and> day_offset \<le> 6" using randint_range[OF _ r1] by simp
  have hr: "9 \<le> hour \<and> hour \<le> 20" using randint_range[OF _ r2] by simp
  have mi: "0 \<le> minute \<and> minute \<le> 59" using randint_range[OF _ r3] by simp
  have se: "0 \<le> second \<and> second \<le> 59" using randint_range[OF _ r4] by simp
  have cd0: "commit_day0 = current + day_offset"
    using add by (simp add: date_add_days_def Let_def split: if_splits)
  have "commit_ok current end_date t"
    using off hr mi se cd0 Suc.prems(1)
    by (auto simp: commit_ok_def t_def combine_def commit_day_def)
  then show ?case using new by (intro exI[of _ "t # new"]) simp
qed

lemma week_commits_returns:
  assumes "MINORD \<le> current" and "current + 6 \<le> MAXORD"
  shows "\<exists>r. week_commits n current end_date g acc = Inr r"
proof (induction n arbitrary: g acc)
  case 0
  then show ?case by simp
next
  case (Suc n)
  obtain day_offset g1 where r1: "randint 0 6 g = (day_offset, g1)" by force
  obtain hour g2 where r2: "randint 9 20 g1 = (hour, g2)" by force
  obtain minute g3 where r3: "randint 0 59 g2 = (minute, g3)" by force
  obtain second g4 where r4: "randint 0 59 g3 = (second, g4)" by force
  have off: "0 \<le> day_offset \<and> day_offset \<le> 6" using randint_range[OF _ r1] by simp
  have add: "date_add_days current day_offset = Inr (current + day_offset)"
    using off assms by (simp add: date_add_days_def Let_def)
  show ?case using r1 r2 r3 r4 add Suc.IH by (simp add: Let_def)
qed

lemma weeks_of_step: "current < d \<Longrightarrow> weeks_of current d = 1 + weeks_of (current + 7) d"
proof -
  assume lt: "current < d"
  have "d - current + 6 = (d - (current + 7) + 6) + 7" by simp
  then have a: "(d - current + 6) div 7 = 1 + (d - (current + 7) + 6) div 7"
    by (metis add.commute div_add_self2 zero_neq_numeral)
  have b: "(d - current + 6) div 7 = 1" if "\<not> current + 7 < d"
    using lt that by (intro int_div_pos_eq[where r = "d - current - 1"]) auto
  show ?thesis using lt a b by (simp add: weeks_of_def)
qed

lemma weeks_of_done: "\<not> current < d \<Longrightarrow> weeks_of current d = 0"
  by (simp add: weeks_of_def)

lemma weeks_of_nonneg: "0 \<le> weeks_of current d"
proof -
  have "current < d \<Longrightarrow> 0 \<le> (d - current + 6) div 7" by simp
  then show ?thesis by (simp add: weeks_of_def)
qed

lemma weeks_of_ceiling:
  assumes "start_date < d"
  shows "weeks_of start_date d = \<lceil>real_of_int (d - start_date) / 7\<rceil>"
proof -
  define a where "a = d - start_date"
  define z where "z = (a + 6) div 7"
  have e: "a + 6 = 7 * z + (a + 6) mod 7"
    unfolding z_def by (simp add: mult_div_mod_eq)
  have b: "0 \<le> (a + 6) mod 7" "(a + 6) mod 7 < 7" by simp_all
  have i1: "7 * z - 7 < a" using e b by linarith
  have i2: "a \<le> 7 * z" using e b by linarith
  have r1: "real_of_int z - 1 < real_of_int a / 7"
    using i1 by (simp add: less_divide_eq)
  have r2: "real_of_int a / 7 \<le> real_of_int z"
    using i2 by (simp add: divide_le_eq)
  have "\<lceil>real_of_int a / 7\<rceil> = z" using r1 r2 by (rule ceiling_unique)
  then show ?thesis using assms by (simp add: weeks_of_def a_def z_def)
qed

lemma weeks_of_whole: "1 \<le> W \<Longrightarrow> weeks_of start_date (start_date + 7 * W) = W"
proof -
  assume "1 \<le> W"
  have "(7 * W + 6) div 7 = W"
    by (rule int_div_pos_eq[where r = 6]) auto
  then show ?thesis using \<open>1 \<le> W\<close> by (simp add: weeks_of_def)
qed

lemma commit_ok_in_window:
  "commit_ok current end_date t \<Longrightarrow> start_date \<le> current \<Longrightarrow> in_window start_date end_date t"
  by (auto simp: commit_ok_def in_window_def)

lemma in_window_mono:
  "in_window s' end_date t \<Longrightarrow> s \<le> s' \<Longrightarrow> in_window s end_date t"
  by (auto simp: in_window_def)

lemma weeks_loop_props:
  "weeks_loop current end_date g acc = Inr (cur', acc', g') \<Longrightarrow>
   \<exists>new. acc' = acc @ new \<and>
     (\<forall>t\<in>set new. in_window current end_date t) \<and>
     cur' = current + 7 * weeks_of current (dt_date end_date) \<and>
     3 * weeks_of current (dt_date end_date) \<le> int (length new) \<and>
     int (length new) \<le> 5 * weeks_of current (dt_date end_date)"
proof (induction current end_date g acc rule: weeks_loop.induct)
  case (1 current end_date g commit_dates)
  show ?case
  proof (cases "current < dt_date end_date")
    case False
    then show ?thesis using "1.prems" by (simp add: weeks_of_done weeks_loop_done)
  next
    case True
    obtain c g1 where r: "randint 3 5 g = (c, g1)" by force
    have c: "3 \<le> c \<and> c \<le> 5" using randint_range[OF _ r] by simp
    from weeks_loop_Inr_round[OF "1.prems" True r] obtain acc1 g2 where
      wk: "week_commits (nat c) current end_date g1 commit_dates = Inr (acc1, g2)" and
      add: "date_add_days current 7 = Inr (current + 7)" and
      rec: "weeks_loop (current + 7) end_date g2 acc1 = Inr (cur', acc', g')"
      by blast
    define current' where "current' = current + 7"
    have cur: "current' = current + 7" by (simp add: current'_def)
    from "1.IH"[OF True r[symmetric] wk refl add rec] obtain new2 where
      n2: "acc' = acc1 @ new2" "\<forall>t\<in>set new2. in_window current' end_date t"
          "cur' = current' + 7 * weeks_of current' (dt_date end_date)"
          "3 * weeks_of current' (dt_date end_date) \<le> int (length new2)"
          "int (length new2) \<le> 5 * weeks_of current' (dt_date end_date)"
      unfolding current'_def by blast
    from week_commits_props[OF _ wk] True obtain new1 where
      n1: "acc1 = commit_dates @ new1" "length new1 = nat c"
          "\<forall>t\<in>set new1. commit_ok current end_date t"
      by auto
    have w: "weeks_of current (dt_date end_date) = 1 + weeks_of (current + 7) (dt_date end_date)"
      using True by (rule weeks_of_step)
    have a: "acc' = commit_dates @ (new1 @ new2)" using n1 n2 by simp
    have b: "\<forall>t\<in>set (new1 @ new2). in_window current end_date t"
      using n1(3) n2(2) cur
      by (auto intro: commit_ok_in_window in_window_mono[where s'="current + 7"])
    have len: "int (length (new1 @ new2)) = c + int (length new2)"
      using n1(2) c by simp
    have e: "cur' = current + 7 * weeks_of current (dt_date end_date)"
      using n2(3) w cur by simp
    have lo: "3 * weeks_of current (dt_date end_date) \<le> int (length (new1 @ new2))"
      using len c n2(4) w cur by simp
    have hi: "int (length (new1 @ new2)) \<le> 5 * weeks_of current (dt_date end_date)"
      using len c n2(5) w cur by simp
    show ?thesis using a b e lo hi by blast
  qed
qed

lemma weeks_loop_returns:
  "MINORD \<le> current \<Longrightarrow>
   current + 7 * weeks_of current (dt_date end_date) \<le> MAXORD \<Longrightarrow>
   \<exists>r. weeks_loop current end_date g acc = Inr r"
proof (induction current end_date g acc rule: weeks_loop.induct)
  case (1 current end_date g commit_dates)
  show ?case
  proof (cases "current < dt_date end_date")
    case False
    then show ?thesis by (simp add: weeks_loop_done)
  next
    case True
    obtain c g1 where r: "randint 3 5 g = (c, g1)" by force
    have w: "weeks_of current (dt_date end_date) = 1 + weeks_of (current + 7) (dt_date end_date)"
      using True by (rule weeks_of_step)
    have nn: "0 \<le> weeks_of (current + 7) (dt_date end_date)" by (rule weeks_of_nonneg)
    have room: "current + 7 \<le> MAXORD" using "1.prems"(2) w nn by linarith
    have "current + 6 \<le> MAXORD" using room by simp
    from week_commits_returns[OF "1.prems"(1) this] obtain acc1 g2 where
      wk: "week_commits (nat c) current end_date g1 commit_dates = Inr (acc1, g2)"
      by (metis surj_pair)
    have add: "date_add_days current 7 = Inr (current + 7)"
      using room "1.prems"(1) by (simp add: date_add_days_def Let_def)
    have p1: "MINORD \<le> current + 7" using "1.prems"(1) by simp
    have p2: "current + 7 + 7 * weeks_of (current + 7) (dt_date end_date) \<le> MAXORD"
      using "1.prems"(2) w by simp
    from "1.IH"[OF True r[symmetric] wk refl add p1 p2] obtain r' where
      "weeks_loop (current + 7) end_date g2 acc1 = Inr r'" by blast
    then have "weeks_loop current end_date g commit_dates = Inr r'"
      using weeks_loop_round[OF True r wk add] by simp
    then show ?thesis by (rule exI)
  qed
qed

lemma gen_props:
  assumes "generate_commit_dates start_date end_date g = Inr sched"
  shows "(\<forall>t\<in>set sched. in_window start_date end_date t) \<and>
     3 * weeks_of start_date (dt_date end_date) \<le> int (length sched) \<and>
     int (length sched) \<le> 5 * weeks_of start_date (dt_date end_date) \<and>
     (\<exists>acc g'. weeks_loop start_date end_date g [] =
        Inr (start_date + 7 * weeks_of start_date (dt_date end_date), acc, g') \<and>
        sched = sort acc)"
proof -
  from assms obtain cur acc g' where
    wl: "weeks_loop start_date end_date g [] = Inr (cur, acc, g')" and s: "sched = sort acc"
    by (auto simp: generate_commit_dates_def split: sum.splits)
  from weeks_loop_props[OF wl] show ?thesis using s wl by auto
qed

lemma gen_returns:
  assumes "MINORD \<le> start_date"
    and "start_date + 7 * weeks_of start_date (dt_date end_date) \<le> MAXORD"
  shows "\<exists>sched. generate_commit_dates start_date end_date g = Inr sched"
  using weeks_loop_returns[OF assms, of g "[]"]
  by (auto simp: generate_commit_dates_def split: sum.splits)

text \<open>
  Within six days of \<^verbatim>\<open>date.max\<close> the date arithmetic of a round overflows: here
  \<^verbatim>\<open>current += timedelta(days=7)\<close> (or an earlier day offset) leaves the range of
  dates and the function raises instead of returning a schedule.
\<close>

lemma overflow_near_date_max:
  "generate_commit_dates 3652058 (3652059, 8, 0, 0, 0) rng_count = Inl OverflowError"
  by code_simp

lemma gen_sorted:
  "generate_commit_dates start_date end_date g = Inr sched \<Longrightarrow> sorted sched"
  by (auto simp: generate_commit_dates_def split: sum.splits)



section \<open>Claims about the date sampler\<close>




text \<open>
  C2. The list returned by \<^verbatim>\<open>generate_commit_dates\<close> is sorted in non-decreasing
  order: it equals its own sorted version.
\<close>

theorem schedule_sorted:
  "generate_commit_dates start_date end_date g = Inr sched \<Longrightarrow>
   sorted sched \<and> sort sched = sched"
  by (auto simp: generate_commit_dates_def sorted_sort_id split: sum.splits)

theorem schedule_sorted_witness:
  "generate_commit_dates 739038 (739045, 8, 0, 0, 0) rng_count =
     Inr [(739038, 17, 9, 10, 0), (739039, 13, 17, 18, 0), (739041, 13, 5, 6, 0),
      (739042, 9, 13, 14, 0), (739043, 17, 21, 22, 0)]
   \<and> sorted ([(739038, 17, 9, 10, 0), (739039, 13, 17, 18, 0), (739041, 13, 5, 6, 0),
      (739042, 9, 13, 14, 0), (739043, 17, 21, 22, 0)] :: datetime list)
   \<and> sort ([(739038, 17, 9, 10, 0), (739039, 13, 17, 18, 0), (739041, 13, 5, 6, 0),
      (739042, 9, 13, 14, 0), (739043, 17, 21, 22, 0)] :: datetime list) =
     [(739038, 17, 9, 10, 0), (739039, 13, 17, 18, 0), (739041, 13, 5, 6, 0),
      (739042, 9, 13, 14, 0), (739043, 17, 21, 22, 0)]"
proof -
  have h: "generate_commit_dates 739038 (739045, 8, 0, 0, 0) rng_count =
     Inr [(739038, 17, 9, 10, 0), (739039, 13, 17, 18, 0), (739041, 13, 5, 6, 0),
      (739042, 9, 13, 14, 0), (739043, 17, 21, 22, 0)]"
    by code_simp
  show ?thesis using h schedule_sorted[OF h] by simp
qed

text \<open>
  C3. When the start date is on or after the calendar date of the end, the weekly loop
  runs zero times (it returns its inputs unchanged) and the schedule is empty.
\<close>

theorem empty_range_empty_schedule:
  "dt_date end_date \<le> start_date \<Longrightarrow>
   weeks_loop start_date end_date g [] = Inr (start_date, [], g) \<and>
   generate_commit_dates start_date end_date g = Inr []"
  by (simp add: generate_commit_dates_def weeks_loop_done)

theorem empty_range_empty_schedule_witness:
  "dt_date (739038, 23, 59, 59, 0) \<le> 739038 \<and>
   weeks_loop 739038 (739038, 23, 59, 59, 0) rng_count [] = Inr (739038, [], rng_count) \<and>
   generate_commit_dates 739038 (739038, 23, 59, 59, 0) rng_count = Inr []"
proof -
  have h: "dt_date (739038, 23, 59, 59, 0) \<le> 739038" by (simp add: dt_date_def)
  show ?thesis using h empty_range_empty_schedule[OF h, of rng_count] by simp
qed

text \<open>
  C4. For a range of exactly \<open>W\<close> whole weeks (the date of the end is the start plus
  \<open>7 * W\<close> days, \<open>W \<ge> 1\<close>) the function returns a schedule whose length lies between
  \<open>3 * W\<close> and \<open>5 * W\<close>; for one week the length is 3, 4 or 5.
\<close>

theorem whole_weeks_count:
  assumes "valid_date start_date" and "valid_datetime end_date"
    and "1 \<le> W" and "dt_date end_date = start_date + 7 * W"
  shows "\<exists>sched. generate_commit_dates start_date end_date g = Inr sched \<and>
           3 * W \<le> int (length sched) \<and> int (length sched) \<le> 5 * W \<and>
           (W = 1 \<longrightarrow> length sched \<in> {3, 4, 5})"
proof -
  have w: "weeks_of start_date (dt_date end_date) = W"
    using assms(3,4) by (simp add: weeks_of_whole)
  have "valid_date (dt_date end_date)"
    using assms(2) by (cases end_date) (auto simp: valid_datetime_def dt_date_def)
  then have "start_date + 7 * weeks_of start_date (dt_date end_date) \<le> MAXORD"
    using w assms(4) by (simp add: valid_date_def)
  moreover have "MINORD \<le> start_date" using assms(1) by (simp add: valid_date_def)
  ultimately obtain sched where s: "generate_commit_dates start_date end_date g = Inr sched"
    using gen_returns by blast
  from gen_props[OF s] w have
    b: "3 * W \<le> int (length sched)" "int (length sched) \<le> 5 * W" by auto
  have "W = 1 \<longrightarrow> length sched \<in> {3, 4, 5}" using b by auto
  with s b show ?thesis by blast
qed

theorem whole_weeks_count_witness:
  "valid_date 739038 \<and> valid_datetime (739045, 8, 0, 0, 0) \<and>
   dt_date (739045, 8, 0, 0, 0) = 739038 + 7 * 1 \<and>
   generate_commit_dates 739038 (739045, 8, 0, 0, 0) rng_count =
     Inr [(739038, 17, 9, 10, 0), (739039, 13, 17, 18, 0), (739041, 13, 5, 6, 0),
      (739042, 9, 13, 14, 0), (739043, 17, 21, 22, 0)] \<and>
   length ([(739038, 17, 9, 10, 0), (739039, 13, 17, 18, 0), (739041, 13, 5, 6, 0),
      (739042, 9, 13, 14, 0), (739043, 17, 21, 22, 0)] :: datetime list) \<in> {3, 4, 5}"
proof -
  have h: "generate_commit_dates 739038 (739045, 8, 0, 0, 0) rng_count =
     Inr [(739038, 17, 9, 10, 0), (739039, 13, 17, 18, 0), (739041, 13, 5, 6, 0),
      (739042, 9, 13, 14, 0), (739043, 17, 21, 22, 0)]"
    by code_simp
  have v1: "valid_date 739038" by (simp add: valid_date_def MINORD_def MAXORD_def)
  have v2: "valid_datetime (739045, 8, 0, 0, 0)"
    by (simp add: valid_datetime_def valid_date_def MINORD_def MAXORD_def)
  have w: "(1::int) \<le> 1" by simp
  have d: "dt_date (739045, 8, 0, 0, 0) = 739038 + 7 * 1" by (simp add: dt_date_def)
  show ?thesis using h v1 v2 d whole_weeks_count[OF v1 v2 w d, of rng_count] by auto
qed

text \<open>
  C10. When the start date is before the calendar date of the end, \<open>D\<close> days later,
  the weekly loop runs exactly \<open>ceil (D / 7)\<close> times: every round advances
  \<^verbatim>\<open>current\<close> by seven days, and the loop ends with \<^verbatim>\<open>current\<close> at the start plus
  \<open>7 * ceil (D / 7)\<close> days. The length of the schedule lies between \<open>3 * ceil (D / 7)\<close>
  and \<open>5 * ceil (D / 7)\<close>, a partial last week drawing a full count. The function returns
  a schedule whenever the end's date is at least six days before \<^verbatim>\<open>date.max\<close>
  (beyond that, the date arithmetic of a round can raise \<^verbatim>\<open>OverflowError\<close>).
\<close>

theorem partial_week_rounds:
  assumes "valid_date start_date" and "start_date < dt_date end_date"
  shows "(\<forall>sched. generate_commit_dates start_date end_date g = Inr sched \<longrightarrow>
            (\<exists>acc g'. weeks_loop start_date end_date g [] =
               Inr (start_date + 7 * \<lceil>real_of_int (dt_date end_date - start_date) / 7\<rceil>, acc, g') \<and>
               sched = sort acc) \<and>
            3 * \<lceil>real_of_int (dt_date end_date - start_date) / 7\<rceil> \<le> int (length sched) \<and>
            int (length sched) \<le> 5 * \<lceil>real_of_int (dt_date end_date - start_date) / 7\<rceil>) \<and>
         (dt_date end_date + 6 \<le> MAXORD \<longrightarrow>
            (\<exists>sched. generate_commit_dates start_date end_date g = Inr sched))"
proof -
  define K where "K = \<lceil>real_of_int (dt_date end_date - start_date) / 7\<rceil>"
  have w: "weeks_of start_date (dt_date end_date) = K"
    unfolding K_def using assms(2) by (rule weeks_of_ceiling)
  have a: "(\<exists>acc g'. weeks_loop start_date end_date g [] = Inr (start_date + 7 * K, acc, g') \<and>
               sched = sort acc) \<and> 3 * K \<le> int (length sched) \<and> int (length sched) \<le> 5 * K"
    if "generate_commit_dates start_date end_date g = Inr sched" for sched
    using gen_props[OF that] w by simp
  have b: "\<exists>sched. generate_commit_dates start_date end_date g = Inr sched"
    if room: "dt_date end_date + 6 \<le> MAXORD"
  proof -
    define x where "x = dt_date end_date - start_date + 6"
    have "x = 7 * (x div 7) + x mod 7" by (simp add: mult_div_mod_eq)
    moreover have "0 \<le> x mod 7" by simp
    ultimately have "7 * (x div 7) \<le> x" by linarith
    then have "7 * ((dt_date end_date - start_date + 6) div 7) \<le> dt_date end_date - start_date + 6"
      by (simp add: x_def)
    then have "start_date + 7 * weeks_of start_date (dt_date end_date) \<le> MAXORD"
      using room assms(2) by (simp add: weeks_of_def)
    moreover have "MINORD \<le> start_date" using assms(1) by (simp add: valid_date_def)
    ultimately show ?thesis using gen_returns by blast
  qed
  show ?thesis unfolding K_def[symmetric] using a b by blast
qed

theorem partial_week_rounds_witness:
  "valid_date 739038 \<and> 739038 < dt_date (739048, 8, 0, 0, 0) \<and>
   \<lceil>real_of_int (dt_date (739048, 8, 0, 0, 0) - 739038) / 7\<rceil> = 2 \<and>
   generate_commit_dates 739038 (739048, 8, 0, 0, 0) rng_count =
     Inr [(739038, 17, 9, 10, 0), (739039, 13, 17, 18, 0), (739041, 13, 5, 6, 0),
      (739042, 9, 13, 14, 0), (739043, 17, 21, 22, 0), (739045, 14, 30, 31, 0),
      (739046, 10, 38, 39, 0), (739048, 10, 26, 27, 0), (739048, 14, 42, 43, 0),
      (739048, 18, 34, 35, 0)] \<and>
   length ([(739038, 17, 9, 10, 0), (739039, 13, 17, 18, 0), (739041, 13, 5, 6, 0),
      (739042, 9, 13, 14, 0), (739043, 17, 21, 22, 0), (739045, 14, 30, 31, 0),
      (739046, 10, 38, 39, 0), (739048, 10, 26, 27, 0), (739048, 14, 42, 43, 0),
      (739048, 18, 34, 35, 0)] :: datetime list) = 10"
proof -
  have h: "generate_commit_dates 739038 (739048, 8, 0, 0, 0) rng_count =
     Inr [(739038, 17, 9, 10, 0), (739039, 13, 17, 18, 0), (739041, 13, 5, 6, 0),
      (739042, 9, 13, 14, 0), (739043, 17, 21, 22, 0), (739045, 14, 30, 31, 0),
      (739046, 10, 38, 39, 0), (739048, 10, 26, 27, 0), (739048, 14, 42, 43, 0),
      (739048, 18, 34, 35, 0)]"
    by code_simp
  have v: "valid_date 739038" by (simp add: valid_date_def MINORD_def MAXORD_def)
  have lt: "739038 < dt_date (739048, 8, 0, 0, 0)" by (simp add: dt_date_def)
  have c: "\<lceil>real_of_int (dt_date (739048, 8, 0, 0, 0) - 739038) / 7\<rceil> = 2"
    by (simp add: dt_date_def)
  show ?thesis using h v lt c partial_week_rounds[OF v lt, of rng_count] by simp
qed

section \<open>Properties of the commit applier\<close>

lemma advanced_refl: "advanced w 0 0 [] w"
  by (simp add: advanced_def)

lemma advanced_trans:
  "advanced w k1 a1 e1 w1 \<Longrightarrow> advanced w1 k2 a2 e2 w2 \<Longrightarrow>
   advanced w (k1 + k2) (a1 + a2) (e1 @ e2) w2"
  by (simp add: advanced_def add.assoc add.commute add.left_commute)

lemma advanced_print: "advanced w 0 0 [Print s] (print_line s w)"
  by (simp add: advanced_def print_line_def)

lemma subprocess_run_advanced:
  "subprocess_run argv None w = (res, w') \<Longrightarrow>
   res = check_result argv (tool w 0) \<and> files w' = files w \<and>
   advanced w 1 0 [Run argv (environ w) (tool w 0)] w'"
  by (auto simp: subprocess_run_def Let_def advanced_def)

lemma subprocess_run_env_advanced:
  "subprocess_run argv (Some env) w = (res, w') \<Longrightarrow>
   res = check_result argv (tool w 0) \<and> files w' = files w \<and>
   advanced w 1 0 [Run argv env (tool w 0)] w'"
  by (auto simp: subprocess_run_def Let_def advanced_def)

lemma file_append_ok:
  "disk w 0 \<Longrightarrow> file_append fn text w = (res, w') \<Longrightarrow>
   res = Inr () \<and> advanced w 0 1 [Append fn text] w' \<and>
   files w' = (files w)(fn \<mapsto> (case files w fn of None \<Rightarrow> [] | Some old \<Rightarrow> old) @ text)"
  by (auto simp: file_append_def advanced_def)

lemma check_ok [simp]: "check_result argv (Exited 0) = Inr ()"
  by (simp add: check_result_def)

lemma check_fail: "rc \<noteq> 0 \<Longrightarrow> check_result argv (Exited rc) = Inl (CalledProcessError rc argv)"
  by (simp add: check_result_def)

lemma make_commit_ok:
  assumes "disk w 0" and "tool w 0 = Exited 0" and "tool w 1 = Exited 0"
  shows "\<exists>w'. make_commit cal d w = (Inr (), w') \<and>
           advanced w 2 1 (commit_steps cal (environ w) d) w' \<and>
           files w' = (files w)(''dummy.txt'' \<mapsto> tracked w @ fake_line (strftime cal d))"
  using assms
  by (simp add: make_commit_def Let_def file_append_def subprocess_run_def print_line_def
      advanced_def commit_steps_def add_argv_def commit_argv_def commit_env_def fake_line_def
      tracked_def)

lemma make_commit_stage_fails:
  assumes "disk w 0" and "check_result add_argv (tool w 0) = Inl e"
  shows "\<exists>w'. make_commit cal d w = (Inl e, w') \<and>
           advanced w 1 1 [Append ''dummy.txt'' (fake_line (strftime cal d)),
                           Run add_argv (environ w) (tool w 0)] w' \<and>
           files w' = (files w)(''dummy.txt'' \<mapsto> tracked w @ fake_line (strftime cal d))"
  using assms
  by (simp add: make_commit_def Let_def file_append_def subprocess_run_def print_line_def
      advanced_def add_argv_def fake_line_def tracked_def)

lemma make_commit_commit_fails:
  assumes "disk w 0" and "tool w 0 = Exited 0"
    and "check_result (commit_argv (strftime cal d)) (tool w 1) = Inl e"
  shows "\<exists>w'. make_commit cal d w = (Inl e, w') \<and>
           advanced w 2 1 [Append ''dummy.txt'' (fake_line (strftime cal d)),
                           Run add_argv (environ w) (Exited 0),
                           Run (commit_argv (strftime cal d))
                               (commit_env (environ w) (strftime cal d)) (tool w 1)] w' \<and>
           files w' = (files w)(''dummy.txt'' \<mapsto> tracked w @ fake_line (strftime cal d))"
  using assms
  by (simp add: make_commit_def Let_def file_append_def subprocess_run_def print_line_def
      advanced_def add_argv_def commit_argv_def commit_env_def fake_line_def tracked_def)

lemma commit_all_append:
  "commit_all cal (pre @ rest) w =
     (case commit_all cal pre w of
        (Inl e, w') \<Rightarrow> (Inl e, w')
      | (Inr u, w') \<Rightarrow> commit_all cal rest w')"
  by (induction pre arbitrary: w) (auto split: prod.splits sum.splits)

lemma commit_all_ok:
  assumes "\<forall>i<2 * length ts. tool w i = Exited 0" and "\<forall>i<length ts. disk w i"
  shows "\<exists>w'. commit_all cal ts w = (Inr (), w') \<and>
           advanced w (2 * length ts) (length ts)
             (concat (map (commit_steps cal (environ w)) ts)) w'"
  using assms
proof (induction ts arbitrary: w)
  case Nil
  show ?case by (simp add: advanced_refl)
next
  case (Cons d ts)
  have d0: "disk w 0" using Cons.prems(2) by simp
  have t0: "tool w 0 = Exited 0" using Cons.prems(1) by simp
  have t1: "tool w 1 = Exited 0" using Cons.prems(1) by simp
  from make_commit_ok[OF d0 t0 t1, of cal d] obtain w1 where
    mc: "make_commit cal d w = (Inr (), w1)" and
    adv1: "advanced w 2 1 (commit_steps cal (environ w) d) w1"
    by blast
  have env1: "environ w1 = environ w" using adv1 by (simp add: advanced_def)
  have tools: "\<forall>i<2 * length ts. tool w1 i = Exited 0"
  proof (intro allI impI)
    fix i assume "i < 2 * length ts"
    then have "i + 2 < 2 * length (d # ts)" by simp
    then have "tool w (i + 2) = Exited 0" using Cons.prems(1) by blast
    then show "tool w1 i = Exited 0" using adv1 by (simp add: advanced_def)
  qed
  have disks: "\<forall>i<length ts. disk w1 i"
  proof (intro allI impI)
    fix i assume "i < length ts"
    then have "disk w (i + 1)" using Cons.prems(2) by simp
    then show "disk w1 i" using adv1 by (simp add: advanced_def)
  qed
  from Cons.IH[OF tools disks] obtain w' where
    ca: "commit_all cal ts w1 = (Inr (), w')" and
    adv2: "advanced w1 (2 * length ts) (length ts)
             (concat (map (commit_steps cal (environ w1)) ts)) w'"
    by blast
  have "advanced w (2 + 2 * length ts) (1 + length ts)
          (commit_steps cal (environ w) d @ concat (map (commit_steps cal (environ w)) ts)) w'"
    using advanced_trans[OF adv1 adv2] env1 by simp
  then have "advanced w (2 * length (d # ts)) (length (d # ts))
          (concat (map (commit_steps cal (environ w)) (d # ts))) w'"
    by simp
  moreover have "commit_all cal (d # ts) w = (Inr (), w')" using mc ca by simp
  ultimately show ?case by blast
qed

lemma runs_append [simp]: "runs (xs @ ys) = runs xs @ runs ys"
  by (simp add: runs_def)

lemma appended_append [simp]: "appended (xs @ ys) = appended xs @ appended ys"
  by (simp add: appended_def)

lemma commits_made_append [simp]: "commits_made (xs @ ys) = commits_made xs @ commits_made ys"
  by (simp add: commits_made_def)

lemma runs_steps: "runs (commit_steps cal env0 d) = [add_argv, commit_argv (strftime cal d)]"
  by (simp add: runs_def commit_steps_def)

lemma appended_steps: "appended (commit_steps cal env0 d) = [fake_line (strftime cal d)]"
  by (simp add: appended_def commit_steps_def)

lemma commits_made_steps: "commits_made (commit_steps cal env0 d) = [recorded cal d]"
  by (simp add: commits_made_def commit_steps_def add_argv_def commit_argv_def commit_env_def
      recorded_def)

lemma runs_concat_steps:
  "length (runs (concat (map (commit_steps cal env0) ts))) = 2 * length ts"
  by (induction ts) (simp_all add: runs_def runs_steps[unfolded runs_def])

lemma push_not_in_steps:
  "push_argv \<notin> set (runs (concat (map (commit_steps cal env0) ts)))"
  by (induction ts)
     (simp_all add: runs_def runs_steps[unfolded runs_def] push_argv_def add_argv_def
        commit_argv_def)

lemma appended_concat_steps:
  "appended (concat (map (commit_steps cal env0) ts)) =
     map (\<lambda>d. fake_line (strftime cal d)) ts"
  by (induction ts) (simp_all add: appended_def appended_steps[unfolded appended_def])

lemma commits_made_concat_steps:
  "commits_made (concat (map (commit_steps cal env0) ts)) = map (recorded cal) ts"
  by (induction ts) (simp_all add: commits_made_def commits_made_steps[unfolded commits_made_def])

lemma commit_all_stage_fails:
  assumes j: "j < length ts"
    and ok: "\<forall>i<2 * j. tool w i = Exited 0"
    and dk: "\<forall>i\<le>j. disk w i"
    and fl: "check_result add_argv (tool w (2 * j)) = Inl e"
  shows "\<exists>w'. commit_all cal ts w = (Inl e, w') \<and>
           advanced w (2 * j + 1) (j + 1)
             (concat (map (commit_steps cal (environ w)) (take j ts)) @
              [Append ''dummy.txt'' (fake_line (strftime cal (ts ! j))),
               Run add_argv (environ w) (tool w (2 * j))]) w'"
proof -
  have split: "ts = take j ts @ (ts ! j) # drop (Suc j) ts"
    using j by (rule id_take_nth_drop)
  have lt: "length (take j ts) = j" using j by simp
  have ok': "\<forall>i<2 * length (take j ts). tool w i = Exited 0" using ok lt by simp
  have dk': "\<forall>i<length (take j ts). disk w i" using dk lt by simp
  from commit_all_ok[OF ok' dk', of cal] lt obtain w1 where
    c1: "commit_all cal (take j ts) w = (Inr (), w1)" and
    a1: "advanced w (2 * j) j (concat (map (commit_steps cal (environ w)) (take j ts))) w1"
    by auto
  have d0: "disk w1 0" using a1 dk by (simp add: advanced_def)
  have t0: "tool w1 0 = tool w (2 * j)" using a1 by (simp add: advanced_def)
  have e1: "environ w1 = environ w" using a1 by (simp add: advanced_def)
  from make_commit_stage_fails[OF d0, of e cal "ts ! j"] fl t0 e1 obtain w' where
    m: "make_commit cal (ts ! j) w1 = (Inl e, w')" and
    a2: "advanced w1 1 1 [Append ''dummy.txt'' (fake_line (strftime cal (ts ! j))),
                          Run add_argv (environ w) (tool w (2 * j))] w'"
    by auto
  have "commit_all cal (take j ts @ (ts ! j) # drop (Suc j) ts) w = (Inl e, w')"
    using c1 m by (simp add: commit_all_append)
  then have "commit_all cal ts w = (Inl e, w')" using split by simp
  then show ?thesis using advanced_trans[OF a1 a2] by auto
qed

lemma commit_all_commit_fails:
  assumes j: "j < length ts"
    and ok: "\<forall>i<2 * j + 1. tool w i = Exited 0"
    and dk: "\<forall>i\<le>j. disk w i"
    and fl: "check_result (commit_argv (strftime cal (ts ! j))) (tool w (2 * j + 1)) = Inl e"
  shows "\<exists>w'. commit_all cal ts w = (Inl e, w') \<and>
           advanced w (2 * j + 2) (j + 1)
             (concat (map (commit_steps cal (environ w)) (take j ts)) @
              [Append ''dummy.txt'' (fake_line (strftime cal (ts ! j))),
               Run add_argv (environ w) (Exited 0),
               Run (commit_argv (strftime cal (ts ! j)))
                   (commit_env (environ w) (strftime cal (ts ! j)))
                   (tool w (2 * j + 1))]) w'"
proof -
  have split: "ts = take j ts @ (ts ! j) # drop (Suc j) ts"
    using j by (rule id_take_nth_drop)
  have lt: "length (take j ts) = j" using j by simp
  have ok': "\<forall>i<2 * length (take j ts). tool w i = Exited 0" using ok lt by simp
  have dk': "\<forall>i<length (take j ts). disk w i" using dk lt by simp
  from commit_all_ok[OF ok' dk', of cal] lt obtain w1 where
    c1: "commit_all cal (take j ts) w = (Inr (), w1)" and
    a1: "advanced w (2 * j) j (concat (map (commit_steps cal (environ w)) (take j ts))) w1"
    by auto
  have d0: "disk w1 0" using a1 dk by (simp add: advanced_def)
  have t0: "tool w1 0 = Exited 0" using a1 ok by (simp add: advanced_def)
  have t1: "tool w1 1 = tool w (2 * j + 1)" using a1 by (simp add: advanced_def)
  have e1: "environ w1 = environ w" using a1 by (simp add: advanced_def)
  from make_commit_commit_fails[OF d0 t0, of cal "ts ! j" e] fl t1 e1 obtain w' where
    m: "make_commit cal (ts ! j) w1 = (Inl e, w')" and
    a2: "advanced w1 2 1 [Append ''dummy.txt'' (fake_line (strftime cal (ts ! j))),
               Run add_argv (environ w) (Exited 0),
               Run (commit_argv (strftime cal (ts ! j)))
                   (commit_env (environ w) (strftime cal (ts ! j)))
                   (tool w (2 * j + 1))] w'"
    by auto
  have "commit_all cal (take j ts @ (ts ! j) # drop (Suc j) ts) w = (Inl e, w')"
    using c1 m by (simp add: commit_all_append)
  then have "commit_all cal ts w = (Inl e, w')" using split by simp
  then show ?thesis using advanced_trans[OF a1 a2] by auto
qed

lemma main_unfold:
  assumes "tool w 0 = Exited 0" and "generate_commit_dates START_DATE now g = Inr ts"
  shows "\<exists>w2. advanced w 1 0
                 [Run revparse_argv (environ w) (Exited 0),
                  Print (generating_line cal now (length ts))] w2 \<and>
              files w2 = files w \<and>
              main cal now g w = after_commits cal ts w2"
proof -
  define w2 where
    "w2 = print_line (generating_line cal now (length ts))
            (snd (subprocess_run revparse_argv None w))"
  have a: "advanced w 1 0
             [Run revparse_argv (environ w) (Exited 0),
              Print (generating_line cal now (length ts))] w2"
    using assms(1)
    by (simp add: w2_def subprocess_run_def Let_def print_line_def advanced_def)
  have f: "files w2 = files w"
    by (simp add: w2_def subprocess_run_def Let_def print_line_def)
  have m: "main cal now g w = after_commits cal ts w2"
    using assms
    by (simp add: main_def after_commits_def subprocess_run_def Let_def w2_def
        revparse_argv_def generating_line_def)
  show ?thesis using a f m by blast
qed

lemma commits_made_Cons_Run_other:
  "take 2 argv \<noteq> [''git'', ''commit''] \<Longrightarrow>
   commits_made (Run argv env r # evs) = commits_made evs"
  by (simp add: commits_made_def)

lemma commits_made_Cons_Run_failed:
  "r \<noteq> Exited 0 \<Longrightarrow> commits_made (Run argv env r # evs) = commits_made evs"
  by (simp add: commits_made_def)

lemma commits_made_Cons_Print: "commits_made (Print s # evs) = commits_made evs"
  by (simp add: commits_made_def)

lemma commits_made_Cons_Append: "commits_made (Append fn text # evs) = commits_made evs"
  by (simp add: commits_made_def)

lemma commits_made_Nil: "commits_made [] = []"
  by (simp add: commits_made_def)

lemma not_commit_argv:
  "take 2 revparse_argv \<noteq> [''git'', ''commit'']"
  "take 2 push_argv \<noteq> [''git'', ''commit'']"
  "take 2 add_argv \<noteq> [''git'', ''commit'']"
  by (simp_all add: revparse_argv_def push_argv_def add_argv_def)

lemmas commits_made_simps =
  commits_made_Cons_Run_other commits_made_Cons_Run_failed commits_made_Cons_Print
  commits_made_Cons_Append commits_made_Nil not_commit_argv commits_made_concat_steps

lemma after_commits_all_ok:
  assumes ok: "\<forall>i<2 * length ts. tool w2 i = Exited 0" and dk: "\<forall>i<length ts. disk w2 i"
  shows "\<exists>w4. after_commits cal ts w2 =
                (case check_result push_argv (tool w2 (2 * length ts)) of
                   Inl e \<Rightarrow> (Inl e, w4)
                 | Inr u \<Rightarrow> (Inr (), print_line ''All fake commits have been pushed.'' w4)) \<and>
              advanced w2 (2 * length ts + 1) (length ts)
                (concat (map (commit_steps cal (environ w2)) ts) @
                 [Run push_argv (environ w2) (tool w2 (2 * length ts))]) w4"
proof -
  from commit_all_ok[OF ok dk, of cal] obtain w3 where
    c: "commit_all cal ts w2 = (Inr (), w3)" and
    a: "advanced w2 (2 * length ts) (length ts)
          (concat (map (commit_steps cal (environ w2)) ts)) w3"
    by blast
  obtain res w4 where r: "subprocess_run push_argv None w3 = (res, w4)" by force
  from subprocess_run_advanced[OF r] have
    res: "res = check_result push_argv (tool w3 0)" and
    a2: "advanced w3 1 0 [Run push_argv (environ w3) (tool w3 0)] w4"
    by auto
  have t: "tool w3 0 = tool w2 (2 * length ts)" and e: "environ w3 = environ w2"
    using a by (simp_all add: advanced_def)
  have "after_commits cal ts w2 =
          (case check_result push_argv (tool w2 (2 * length ts)) of
             Inl e \<Rightarrow> (Inl e, w4)
           | Inr u \<Rightarrow> (Inr (), print_line ''All fake commits have been pushed.'' w4))"
    using c r res t
    by (simp add: after_commits_def push_argv_def split: sum.splits)
  moreover have "advanced w2 (2 * length ts + 1) (length ts)
                (concat (map (commit_steps cal (environ w2)) ts) @
                 [Run push_argv (environ w2) (tool w2 (2 * length ts))]) w4"
    using advanced_trans[OF a a2] t e by simp
  ultimately show ?thesis by blast
qed

lemma after_commits_abort:
  "commit_all cal ts w2 = (Inl e, w') \<Longrightarrow> after_commits cal ts w2 = (Inl e, w')"
  by (simp add: after_commits_def)

lemma runs_simps:
  "runs [] = []"
  "runs (Run argv env r # evs) = argv # runs evs"
  "runs (Print s # evs) = runs evs"
  "runs (Append fn text # evs) = runs evs"
  by (simp_all add: runs_def)

lemma appended_simps:
  "appended [] = []"
  "appended (Run argv env r # evs) = appended evs"
  "appended (Print s # evs) = appended evs"
  "appended (Append fn text # evs) = text # appended evs"
  by (simp_all add: appended_def)

lemma push_neq:
  "push_argv \<noteq> revparse_argv" "push_argv \<noteq> add_argv" "push_argv \<noteq> commit_argv s"
  by (simp_all add: push_argv_def revparse_argv_def add_argv_def commit_argv_def)

lemma take_Suc_map_nth:
  "j < length ts \<Longrightarrow> map f (take j ts) @ [f (ts ! j)] = map f (take (Suc j) ts)"
  by (simp add: take_Suc_conv_app_nth)

lemma scoped_step_refl: "scoped_step w w"
  by (simp add: scoped_step_def)

lemma scoped_step_trans: "scoped_step w w1 \<Longrightarrow> scoped_step w1 w2 \<Longrightarrow> scoped_step w w2"
  by (auto simp: scoped_step_def)

lemma scoped_print: "scoped_step w (print_line s w)"
  by (simp add: scoped_step_def print_line_def)

lemma scoped_file_append: "file_append fn text w = (res, w') \<Longrightarrow> scoped_step w w'"
  by (auto simp: scoped_step_def file_append_def split: if_splits)

lemma scoped_run_inherit:
  "take 2 argv \<noteq> [''git'', ''commit''] \<Longrightarrow> subprocess_run argv None w = (res, w') \<Longrightarrow>
   scoped_step w w'"
  by (auto simp: scoped_step_def subprocess_run_def Let_def)

lemma scoped_run_commit:
  "subprocess_run (commit_argv s) (Some (commit_env (environ w) s)) w = (res, w') \<Longrightarrow>
   scoped_step w w'"
  by (auto simp: scoped_step_def subprocess_run_def Let_def commit_argv_def)

lemma make_commit_scoped:
  assumes "make_commit cal d w = (res, w')"
  shows "scoped_step w w'"
proof -
  obtain r1 w1 where f: "file_append ''dummy.txt'' (fake_line (strftime cal d)) w = (r1, w1)"
    by force
  have s1: "scoped_step w w1" using f by (rule scoped_file_append)
  show ?thesis
  proof (cases r1)
    case (Inl e)
    then have "w' = w1" using assms f by (simp add: make_commit_def Let_def fake_line_def)
    then show ?thesis using s1 by simp
  next
    case (Inr u1)
    obtain r2 w2 where a: "subprocess_run add_argv None w1 = (r2, w2)" by force
    have s2: "scoped_step w1 w2"
      using a by (rule scoped_run_inherit[rotated]) (simp add: add_argv_def)
    show ?thesis
    proof (cases r2)
      case (Inl e)
      then have "w' = w2"
        using assms f Inr a by (simp add: make_commit_def Let_def fake_line_def add_argv_def)
      then show ?thesis using s1 s2 scoped_step_trans by blast
    next
      case (Inr u2)
      obtain r3 w3 where
        c: "subprocess_run (commit_argv (strftime cal d))
              (Some (commit_env (environ w2) (strftime cal d))) w2 = (r3, w3)"
        by force
      have s3: "scoped_step w2 w3" using c by (rule scoped_run_commit)
      have "w' = w3 \<or> w' = print_line (''Committed: Fake commit for '' @ strftime cal d) w3"
        using assms f \<open>r1 = Inr u1\<close> a Inr c
        by (cases r3)
           (simp_all add: make_commit_def Let_def fake_line_def add_argv_def commit_argv_def
              commit_env_def)
      then have "scoped_step w3 w'" using scoped_step_refl scoped_print by auto
      then show ?thesis using s1 s2 s3 scoped_step_trans by blast
    qed
  qed
qed

lemma commit_all_scoped:
  "commit_all cal ts w = (res, w') \<Longrightarrow> scoped_step w w'"
proof (induction ts arbitrary: w)
  case Nil
  then show ?case by (simp add: scoped_step_refl)
next
  case (Cons d ts)
  obtain r1 w1 where m: "make_commit cal d w = (r1, w1)" by force
  have s1: "scoped_step w w1" using m by (rule make_commit_scoped)
  show ?case
  proof (cases r1)
    case (Inl e)
    then have "w' = w1" using Cons.prems m by simp
    then show ?thesis using s1 by simp
  next
    case (Inr u)
    then have "commit_all cal ts w1 = (res, w')" using Cons.prems m by simp
    then have "scoped_step w1 w'" by (rule Cons.IH)
    then show ?thesis using s1 scoped_step_trans by blast
  qed
qed

lemma after_commits_scoped:
  assumes "after_commits cal ts w = (res, w')"
  shows "scoped_step w w'"
proof -
  obtain r1 w1 where c: "commit_all cal ts w = (r1, w1)" by force
  have s1: "scoped_step w w1" using c by (rule commit_all_scoped)
  show ?thesis
  proof (cases r1)
    case (Inl e)
    then have "w' = w1" using assms c by (simp add: after_commits_def)
    then show ?thesis using s1 by simp
  next
    case (Inr u)
    obtain r2 w2 where p: "subprocess_run push_argv None w1 = (r2, w2)" by force
    have s2: "scoped_step w1 w2"
      using p by (rule scoped_run_inherit[rotated]) (simp add: push_argv_def)
    have "w' = w2 \<or> w' = print_line ''All fake commits have been pushed.'' w2"
      using assms c Inr p by (cases r2) (simp_all add: after_commits_def push_argv_def)
    then have "scoped_step w2 w'" using scoped_step_refl scoped_print by auto
    then show ?thesis using s1 s2 scoped_step_trans by blast
  qed
qed

lemma main_scoped:
  assumes "main cal now g w = (res, w')"
  shows "scoped_step w w'"
proof -
  obtain r1 w1 where r: "subprocess_run revparse_argv None w = (r1, w1)" by force
  have s1: "scoped_step w w1"
    using r by (rule scoped_run_inherit[rotated]) (simp add: revparse_argv_def)
  show ?thesis
  proof (cases r1)
    case (Inl e)
    then have "w' = w1 \<or>
               w' = print_line ''Error: This script must be run inside a Git repository.'' w1"
      using assms r by (cases e) (simp_all add: main_def revparse_argv_def)
    then have "scoped_step w1 w'" using scoped_step_refl scoped_print by auto
    then show ?thesis using s1 scoped_step_trans by blast
  next
    case (Inr u)
    show ?thesis
    proof (cases "generate_commit_dates START_DATE now g")
      case (Inl e)
      then have "w' = w1" using assms r \<open>r1 = Inr u\<close>
        by (simp add: main_def revparse_argv_def Let_def)
      then show ?thesis using s1 by simp
    next
      case (Inr ts)
      define w2 where "w2 = print_line (generating_line cal now (length ts)) w1"
      have s2: "scoped_step w1 w2" unfolding w2_def by (rule scoped_print)
      have "after_commits cal ts w2 = (res, w')"
        using assms r \<open>r1 = Inr u\<close> Inr
        by (simp add: main_def revparse_argv_def Let_def after_commits_def w2_def
            generating_line_def)
      then have "scoped_step w2 w'" by (rule after_commits_scoped)
      then show ?thesis using s1 s2 scoped_step_trans by blast
    qed
  qed
qed

text \<open>The content of the files after the commits of a schedule.\<close>

lemma tracked_cong: "files w' = files w \<Longrightarrow> tracked w' = tracked w"
  by (simp add: tracked_def)

lemma commit_all_files:
  assumes "\<forall>i<2 * length ts. tool w i = Exited 0" and "\<forall>i<length ts. disk w i"
  shows "files (snd (commit_all cal ts w)) =
           (if ts = [] then files w
            else (files w)(''dummy.txt'' \<mapsto>
                   tracked w @ concat (map (\<lambda>d. fake_line (strftime cal d)) ts)))"
  using assms
proof (induction ts arbitrary: w)
  case Nil
  show ?case by simp
next
  case (Cons d ts)
  have d0: "disk w 0" using Cons.prems(2) by simp
  have t0: "tool w 0 = Exited 0" using Cons.prems(1) by simp
  have t1: "tool w 1 = Exited 0" using Cons.prems(1) by simp
  from make_commit_ok[OF d0 t0 t1, of cal d] obtain w1 where
    mc: "make_commit cal d w = (Inr (), w1)" and
    adv1: "advanced w 2 1 (commit_steps cal (environ w) d) w1" and
    f1: "files w1 = (files w)(''dummy.txt'' \<mapsto> tracked w @ fake_line (strftime cal d))"
    by blast
  have tools: "\<forall>i<2 * length ts. tool w1 i = Exited 0"
  proof (intro allI impI)
    fix i assume "i < 2 * length ts"
    then have "i + 2 < 2 * length (d # ts)" by simp
    then have "tool w (i + 2) = Exited 0" using Cons.prems(1) by blast
    then show "tool w1 i = Exited 0" using adv1 by (simp add: advanced_def)
  qed
  have disks: "\<forall>i<length ts. disk w1 i"
  proof (intro allI impI)
    fix i assume "i < length ts"
    then have "disk w (i + 1)" using Cons.prems(2) by simp
    then show "disk w1 i" using adv1 by (simp add: advanced_def)
  qed
  have tr1: "tracked w1 = tracked w @ fake_line (strftime cal d)"
    using f1 by (simp add: tracked_def)
  have ih: "files (snd (commit_all cal ts w1)) =
           (if ts = [] then files w1
            else (files w1)(''dummy.txt'' \<mapsto>
                   tracked w1 @ concat (map (\<lambda>d. fake_line (strftime cal d)) ts)))"
    by (rule Cons.IH[OF tools disks])
  have step: "files (snd (commit_all cal (d # ts) w)) = files (snd (commit_all cal ts w1))"
    using mc by simp
  show ?case
  proof (cases "ts = []")
    case True
    then show ?thesis using step ih f1 by simp
  next
    case False
    have "files (snd (commit_all cal (d # ts) w)) =
            (files w1)(''dummy.txt'' \<mapsto>
               tracked w1 @ concat (map (\<lambda>d. fake_line (strftime cal d)) ts))"
      using step ih False by simp
    also have "\<dots> = (files w)(''dummy.txt'' \<mapsto>
               tracked w @ concat (map (\<lambda>d. fake_line (strftime cal d)) (d # ts)))"
      unfolding f1 tr1 by simp
    finally show ?thesis by simp
  qed
qed

lemma subprocess_run_files: "files (snd (subprocess_run argv env w)) = files w"
  by (simp add: subprocess_run_def Let_def)

lemma print_line_files: "files (print_line s w) = files w"
  by (simp add: print_line_def)

lemma after_commits_files:
  "files (snd (after_commits cal ts w)) = files (snd (commit_all cal ts w))"
proof -
  obtain r1 w1 where c: "commit_all cal ts w = (r1, w1)" by force
  show ?thesis
  proof (cases r1)
    case (Inl e)
    then show ?thesis using c by (simp add: after_commits_def)
  next
    case (Inr u)
    obtain r2 w2 where p: "subprocess_run [''git'', ''push''] None w1 = (r2, w2)" by force
    have f2: "files w2 = files w1"
      using subprocess_run_files[of "[''git'', ''push'']" None w1] p by simp
    show ?thesis
      using c Inr p f2 by (cases r2) (simp_all add: after_commits_def print_line_files)
  qed
qed

section \<open>Claims about the commit applier\<close>

text \<open>
  C5. The schedule is generated and the first failing external call is call number
  \<open>f\<close> of the run (call 0 is the check of the working tree, calls \<open>2 * j + 1\<close> and
  \<open>2 * j + 2\<close> stage and commit instant \<open>j\<close>, call \<open>2 * n + 1\<close> pushes); it exits with
  a non-zero status. Then \<^verbatim>\<open>main\<close> is left by \<^verbatim>\<open>CalledProcessError\<close> for that
  command, the failing call is the last thing the run did and exactly \<open>f + 1\<close> calls were
  made (no retry, nothing after it), the commits recorded are those of the instants
  before the failing one (they remain, without rollback), no line is appended for a
  later instant, and unless the failing call is the push itself no push was made. With
  five instants and the commit of the second failing, exactly one commit is recorded.
\<close>

theorem tool_failure_aborts_run:
  assumes gen: "generate_commit_dates START_DATE now g = Inr ts"
    and f1: "1 \<le> f" and f2: "f \<le> 2 * length ts + 1"
    and ok: "\<forall>i<f. tool w i = Exited 0"
    and fl: "tool w f = Exited rc" and rc: "rc \<noteq> 0"
    and dk: "\<forall>i<length ts. disk w i"
  shows "\<exists>argv env new w'.
      main cal now g w = (Inl (CalledProcessError rc argv), w') \<and>
      argv = (if f = 2 * length ts + 1 then push_argv
              else if odd f then add_argv
              else commit_argv (strftime cal (ts ! ((f - 1) div 2)))) \<and>
      trace w' = trace w @ new \<and>
      last new = Run argv env (Exited rc) \<and>
      length (runs new) = f + 1 \<and>
      commits_made new = map (recorded cal) (take ((f - 1) div 2) ts) \<and>
      appended new = map (\<lambda>d. fake_line (strftime cal d)) (take ((f + 1) div 2) ts) \<and>
      (f \<le> 2 * length ts \<longrightarrow> push_argv \<notin> set (runs new))"
proof -
  have t0: "tool w 0 = Exited 0" using ok f1 by simp
  from main_unfold[OF t0 gen, of cal] obtain w2 where
    a1: "advanced w 1 0 [Run revparse_argv (environ w) (Exited 0),
                         Print (generating_line cal now (length ts))] w2" and
    m: "main cal now g w = after_commits cal ts w2"
    by blast
  have e2: "environ w2 = environ w" using a1 by (simp add: advanced_def)
  have tl: "\<And>i. tool w2 i = tool w (i + 1)" using a1 by (simp add: advanced_def)
  have dl: "\<And>i. disk w2 i = disk w i" using a1 by (simp add: advanced_def)
  have tr2: "trace w2 = trace w @ [Run revparse_argv (environ w) (Exited 0),
                         Print (generating_line cal now (length ts))]"
    using a1 by (simp add: advanced_def)
  have nz: "Exited rc \<noteq> Exited 0" using rc by simp
  consider (push) "f = 2 * length ts + 1"
    | (stage) j where "f = 2 * j + 1" "j < length ts"
    | (commit) j where "f = 2 * j + 2" "j < length ts"
  proof (cases "f = 2 * length ts + 1")
    case True
    then show ?thesis by (rule that(1))
  next
    case False
    then have le: "f \<le> 2 * length ts" using f2 by simp
    show ?thesis
    proof (cases "odd f")
      case True
      then obtain j where "f = 2 * j + 1" by (auto elim: oddE)
      then show ?thesis using le that(2) by simp
    next
      case False
      then obtain k where k: "f = 2 * k" by (auto elim: evenE)
      then obtain j where "k = Suc j" using f1 by (cases k) auto
      then show ?thesis using k le that(3) by simp
    qed
  qed
  then show ?thesis
  proof cases
    case push
    have ok2: "\<forall>i<2 * length ts. tool w2 i = Exited 0" using ok push tl by simp
    have dk2: "\<forall>i<length ts. disk w2 i" using dk dl by simp
    have tp: "tool w2 (2 * length ts) = Exited rc" using fl push tl by simp
    from after_commits_all_ok[OF ok2 dk2, of cal] tp e2 rc obtain w4 where
      r: "after_commits cal ts w2 = (Inl (CalledProcessError rc push_argv), w4)" and
      a2: "advanced w2 (2 * length ts + 1) (length ts)
             (concat (map (commit_steps cal (environ w)) ts) @
              [Run push_argv (environ w) (Exited rc)]) w4"
      by (auto simp: check_fail)
    define new where
      "new = [Run revparse_argv (environ w) (Exited 0),
              Print (generating_line cal now (length ts))] @
             concat (map (commit_steps cal (environ w)) ts) @
             [Run push_argv (environ w) (Exited rc)]"
    have c1: "main cal now g w = (Inl (CalledProcessError rc push_argv), w4)"
      using m r by simp
    have c3: "trace w4 = trace w @ new"
      using a2 tr2 by (simp add: new_def advanced_def)
    have c4: "last new = Run push_argv (environ w) (Exited rc)" by (simp add: new_def)
    have c5: "length (runs new) = f + 1"
      by (simp add: new_def runs_simps runs_concat_steps push)
    have c6: "commits_made new = map (recorded cal) (take ((f - 1) div 2) ts)"
      using nz by (simp add: new_def commits_made_simps push)
    have c7: "appended new = map (\<lambda>d. fake_line (strftime cal d)) (take ((f + 1) div 2) ts)"
      by (simp add: new_def appended_simps appended_concat_steps push)
    show ?thesis using c1 c3 c4 c5 c6 c7 push by auto
  next
    case (stage j)
    have ok2: "\<forall>i<2 * j. tool w2 i = Exited 0" using ok stage tl by simp
    have dk2: "\<forall>i\<le>j. disk w2 i" using dk dl stage by simp
    have "tool w2 (2 * j) = Exited rc" using fl stage tl by simp
    then have fl2: "check_result add_argv (tool w2 (2 * j)) = Inl (CalledProcessError rc add_argv)"
      and tj: "tool w2 (2 * j) = Exited rc"
      using rc by (simp_all add: check_fail)
    from commit_all_stage_fails[OF stage(2) ok2 dk2 fl2, of cal] e2 tj obtain w' where
      c: "commit_all cal ts w2 = (Inl (CalledProcessError rc add_argv), w')" and
      a2: "advanced w2 (2 * j + 1) (j + 1)
             (concat (map (commit_steps cal (environ w)) (take j ts)) @
              [Append ''dummy.txt'' (fake_line (strftime cal (ts ! j))),
               Run add_argv (environ w) (Exited rc)]) w'"
      by auto
    define new where
      "new = [Run revparse_argv (environ w) (Exited 0),
              Print (generating_line cal now (length ts))] @
             concat (map (commit_steps cal (environ w)) (take j ts)) @
             [Append ''dummy.txt'' (fake_line (strftime cal (ts ! j))),
              Run add_argv (environ w) (Exited rc)]"
    have c1: "main cal now g w = (Inl (CalledProcessError rc add_argv), w')"
      using m after_commits_abort[OF c] by simp
    have c2: "add_argv = (if f = 2 * length ts + 1 then push_argv
              else if odd f then add_argv
              else commit_argv (strftime cal (ts ! ((f - 1) div 2))))"
      using stage by simp
    have c3: "trace w' = trace w @ new"
      using a2 tr2 by (simp add: new_def advanced_def)
    have c4: "last new = Run add_argv (environ w) (Exited rc)" by (simp add: new_def)
    have c5: "length (runs new) = f + 1"
      using stage(2) by (simp add: new_def runs_simps runs_concat_steps stage(1))
    have c6: "commits_made new = map (recorded cal) (take ((f - 1) div 2) ts)"
      using nz by (simp add: new_def commits_made_simps stage(1))
    have c7: "appended new = map (\<lambda>d. fake_line (strftime cal d)) (take ((f + 1) div 2) ts)"
      using take_Suc_map_nth[OF stage(2), of "\<lambda>d. fake_line (strftime cal d)"]
      by (simp add: new_def appended_simps appended_concat_steps stage(1))
    have c8: "push_argv \<notin> set (runs new)"
      using push_not_in_steps[of cal "environ w" "take j ts"]
      by (simp add: new_def runs_simps push_neq)
    show ?thesis using c1 c2 c3 c4 c5 c6 c7 c8 by blast
  next
    case (commit j)
    have ok2: "\<forall>i<2 * j + 1. tool w2 i = Exited 0" using ok commit tl by simp
    have dk2: "\<forall>i\<le>j. disk w2 i" using dk dl commit by simp
    have tj: "tool w2 (2 * j + 1) = Exited rc" using fl commit tl by simp
    define argv where "argv = commit_argv (strftime cal (ts ! j))"
    have fl2: "check_result (commit_argv (strftime cal (ts ! j))) (tool w2 (2 * j + 1)) =
                 Inl (CalledProcessError rc argv)"
      using rc tj by (simp add: check_fail argv_def)
    from commit_all_commit_fails[OF commit(2) ok2 dk2 fl2] e2 tj obtain w' where
      c: "commit_all cal ts w2 = (Inl (CalledProcessError rc argv), w')" and
      a2: "advanced w2 (2 * j + 2) (j + 1)
             (concat (map (commit_steps cal (environ w)) (take j ts)) @
              [Append ''dummy.txt'' (fake_line (strftime cal (ts ! j))),
               Run add_argv (environ w) (Exited 0),
               Run argv (commit_env (environ w) (strftime cal (ts ! j))) (Exited rc)]) w'"
      by (auto simp: argv_def)
    define new where
      "new = [Run revparse_argv (environ w) (Exited 0),
              Print (generating_line cal now (length ts))] @
             concat (map (commit_steps cal (environ w)) (take j ts)) @
             [Append ''dummy.txt'' (fake_line (strftime cal (ts ! j))),
              Run add_argv (environ w) (Exited 0),
              Run argv (commit_env (environ w) (strftime cal (ts ! j))) (Exited rc)]"
    have c1: "main cal now g w = (Inl (CalledProcessError rc argv), w')"
      using m after_commits_abort[OF c] by simp
    have c2: "argv = (if f = 2 * length ts + 1 then push_argv
              else if odd f then add_argv
              else commit_argv (strftime cal (ts ! ((f - 1) div 2))))"
      using commit by (simp add: argv_def)
    have c3: "trace w' = trace w @ new"
      using a2 tr2 by (simp add: new_def advanced_def)
    have c4: "last new = Run argv (commit_env (environ w) (strftime cal (ts ! j))) (Exited rc)"
      by (simp add: new_def)
    have c5: "length (runs new) = f + 1"
      using commit(2) by (simp add: new_def runs_simps runs_concat_steps commit(1))
    have c6: "commits_made new = map (recorded cal) (take ((f - 1) div 2) ts)"
      using nz by (simp add: new_def commits_made_simps commit(1))
    have c7: "appended new = map (\<lambda>d. fake_line (strftime cal d)) (take ((f + 1) div 2) ts)"
      using take_Suc_map_nth[OF commit(2), of "\<lambda>d. fake_line (strftime cal d)"]
      by (simp add: new_def appended_simps appended_concat_steps commit(1))
    have c8: "push_argv \<notin> set (runs new)"
      using push_not_in_steps[of cal "environ w" "take j ts"]
      by (simp add: new_def runs_simps push_neq argv_def)
    show ?thesis using c1 c2 c3 c4 c5 c6 c7 c8 by blast
  qed
qed

theorem tool_failure_aborts_run_witness:
  "generate_commit_dates START_DATE (739045, 8, 0, 0, 0) rng_count = Inr week1 \<and>
   length week1 = 5 \<and> tool world_commit2_fails 4 = Exited 1 \<and>
   fst (main cal0 (739045, 8, 0, 0, 0) rng_count world_commit2_fails) =
     Inl (CalledProcessError 1 (commit_argv (strftime cal0 (739039, 13, 17, 18, 0)))) \<and>
   commits_made (trace (snd (main cal0 (739045, 8, 0, 0, 0) rng_count world_commit2_fails))) =
     [recorded cal0 (739038, 17, 9, 10, 0)] \<and>
   appended (trace (snd (main cal0 (739045, 8, 0, 0, 0) rng_count world_commit2_fails))) =
     [fake_line (strftime cal0 (739038, 17, 9, 10, 0)),
      fake_line (strftime cal0 (739039, 13, 17, 18, 0))] \<and>
   length (runs (trace (snd (main cal0 (739045, 8, 0, 0, 0) rng_count world_commit2_fails)))) = 5 \<and>
   push_argv \<notin> set (runs (trace (snd (main cal0 (739045, 8, 0, 0, 0) rng_count
                                          world_commit2_fails))))"
proof -
  have h: "generate_commit_dates START_DATE (739045, 8, 0, 0, 0) rng_count = Inr week1"
    by code_simp
  have f1: "(1::nat) \<le> 4" by simp
  have f2: "4 \<le> 2 * length week1 + 1" by (simp add: week1_def)
  have ok: "\<forall>i<4. tool world_commit2_fails i = Exited 0"
    by (simp add: world_commit2_fails_def world0_def)
  have fl: "tool world_commit2_fails 4 = Exited 1"
    by (simp add: world_commit2_fails_def world0_def)
  have rc: "(1::int) \<noteq> 0" by simp
  have dk: "\<forall>i<length week1. disk world_commit2_fails i"
    by (simp add: world_commit2_fails_def world0_def)
  have tr: "trace world_commit2_fails = []" by (simp add: world_commit2_fails_def world0_def)
  from tool_failure_aborts_run[OF h f1 f2 ok fl rc dk, of cal0] obtain argv env new w' where
    r: "main cal0 (739045, 8, 0, 0, 0) rng_count world_commit2_fails =
          (Inl (CalledProcessError 1 argv), w')"
       "argv = (if 4 = 2 * length week1 + 1 then push_argv
                else if odd (4::nat) then add_argv
                else commit_argv (strftime cal0 (week1 ! ((4 - 1) div 2))))"
       "trace w' = trace world_commit2_fails @ new"
       "length (runs new) = 4 + 1"
       "commits_made new = map (recorded cal0) (take ((4 - 1) div 2) week1)"
       "appended new = map (\<lambda>d. fake_line (strftime cal0 d)) (take ((4 + 1) div 2) week1)"
       "4 \<le> 2 * length week1 \<longrightarrow> push_argv \<notin> set (runs new)"
    by blast
  have a: "argv = commit_argv (strftime cal0 (739039, 13, 17, 18, 0))"
    using r(2) by (simp add: week1_def)
  have c: "commits_made new = [recorded cal0 (739038, 17, 9, 10, 0)]"
    using r(5) by (simp add: week1_def)
  have p: "appended new = [fake_line (strftime cal0 (739038, 17, 9, 10, 0)),
                          fake_line (strftime cal0 (739039, 13, 17, 18, 0))]"
  proof -
    have e: "(4 + 1) div 2 = (2::nat)" by simp
    show ?thesis using r(6) unfolding e by (simp add: week1_def)
  qed
  have np: "push_argv \<notin> set (runs new)" using r(7) by (simp add: week1_def)
  have l5: "length week1 = 5" by (simp add: week1_def)
  show ?thesis using h fl r(1,3,4) a c p np tr l5 by simp
qed

text \<open>
  C6. When every external call and every file append succeeds, the run does, after the
  check of the working tree and the line announcing the schedule, for each instant of
  the schedule in its (ascending) order exactly: append one line to \<^verbatim>\<open>dummy.txt\<close>,
  stage that file, commit with both \<^verbatim>\<open>GIT_AUTHOR_DATE\<close> and \<^verbatim>\<open>GIT_COMMITTER_DATE\<close>
  set to that instant, print one line; then one push, after all commits. The commits
  recorded carry the instants of the schedule as author and committer dates, and at the
  end \<^verbatim>\<open>dummy.txt\<close> holds its former content followed by one line per instant,
  in the order of the schedule, every other file being as before.
\<close>

theorem run_applies_schedule_in_order:
  assumes gen: "generate_commit_dates START_DATE now g = Inr ts"
    and ok: "\<forall>i<2 * length ts + 2. tool w i = Exited 0"
    and dk: "\<forall>i<length ts. disk w i"
  shows "\<exists>w' new. main cal now g w = (Inr (), w') \<and> trace w' = trace w @ new \<and>
           new = [Run revparse_argv (environ w) (Exited 0),
                  Print (generating_line cal now (length ts))] @
                 concat (map (commit_steps cal (environ w)) ts) @
                 [Run push_argv (environ w) (Exited 0),
                  Print ''All fake commits have been pushed.''] \<and>
           sorted ts \<and>
           commits_made new = map (recorded cal) ts \<and>
           files w' =
             (if ts = [] then files w
              else (files w)(''dummy.txt'' \<mapsto>
                     tracked w @ concat (map (\<lambda>d. fake_line (strftime cal d)) ts)))"
proof -
  have t0: "tool w 0 = Exited 0" using ok by simp
  from main_unfold[OF t0 gen, of cal] obtain w2 where
    a1: "advanced w 1 0 [Run revparse_argv (environ w) (Exited 0),
                         Print (generating_line cal now (length ts))] w2" and
    f2: "files w2 = files w" and
    m: "main cal now g w = after_commits cal ts w2"
    by blast
  have e2: "environ w2 = environ w" using a1 by (simp add: advanced_def)
  have ok2: "\<forall>i<2 * length ts. tool w2 i = Exited 0"
    using a1 ok by (simp add: advanced_def)
  have dk2: "\<forall>i<length ts. disk w2 i" using a1 dk by (simp add: advanced_def)
  have tp: "tool w2 (2 * length ts) = Exited 0" using a1 ok by (simp add: advanced_def)
  from after_commits_all_ok[OF ok2 dk2, of cal] tp e2 obtain w4 where
    r: "after_commits cal ts w2 =
          (Inr (), print_line ''All fake commits have been pushed.'' w4)" and
    a2: "advanced w2 (2 * length ts + 1) (length ts)
           (concat (map (commit_steps cal (environ w)) ts) @
            [Run push_argv (environ w) (Exited 0)]) w4"
    by auto
  define w' where "w' = print_line ''All fake commits have been pushed.'' w4"
  define new where
    "new = [Run revparse_argv (environ w) (Exited 0),
            Print (generating_line cal now (length ts))] @
           concat (map (commit_steps cal (environ w)) ts) @
           [Run push_argv (environ w) (Exited 0),
            Print ''All fake commits have been pushed.'']"
  have tr: "trace w' = trace w @ new"
    using a1 a2 by (simp add: w'_def new_def print_line_def advanced_def)
  have cm: "commits_made new = map (recorded cal) ts"
    by (simp add: new_def commits_made_simps)
  have "files w' = files (snd (after_commits cal ts w2))" using r by (simp add: w'_def)
  also have "\<dots> = files (snd (commit_all cal ts w2))" by (rule after_commits_files)
  also have "\<dots> = (if ts = [] then files w2
              else (files w2)(''dummy.txt'' \<mapsto>
                     tracked w2 @ concat (map (\<lambda>d. fake_line (strftime cal d)) ts)))"
    by (rule commit_all_files[OF ok2 dk2])
  finally have fs: "files w' =
             (if ts = [] then files w
              else (files w)(''dummy.txt'' \<mapsto>
                     tracked w @ concat (map (\<lambda>d. fake_line (strftime cal d)) ts)))"
    using f2 tracked_cong[OF f2] by simp
  have "main cal now g w = (Inr (), w')" using m r by (simp add: w'_def)
  then show ?thesis using tr cm gen_sorted[OF gen] new_def fs by blast
qed

theorem run_applies_schedule_in_order_witness:
  "generate_commit_dates START_DATE (739045, 8, 0, 0, 0) rng_count = Inr week1 \<and>
   fst (main cal0 (739045, 8, 0, 0, 0) rng_count world0) = Inr () \<and>
   commits_made (trace (snd (main cal0 (739045, 8, 0, 0, 0) rng_count world0))) =
     map (recorded cal0) week1 \<and>
   sorted week1 \<and>
   files (snd (main cal0 (739045, 8, 0, 0, 0) rng_count world0)) ''dummy.txt'' =
     Some (concat (map (\<lambda>d. fake_line (strftime cal0 d)) week1))"
proof -
  have h: "generate_commit_dates START_DATE (739045, 8, 0, 0, 0) rng_count = Inr week1"
    by code_simp
  have ok: "\<forall>i<2 * length week1 + 2. tool world0 i = Exited 0" by (simp add: world0_def)
  have dk: "\<forall>i<length week1. disk world0 i" by (simp add: world0_def)
  have tr: "trace world0 = []" by (simp add: world0_def)
  have tk: "tracked world0 = []" by (simp add: tracked_def world0_def)
  have ne: "week1 \<noteq> []" by (simp add: week1_def)
  from run_applies_schedule_in_order[OF h ok dk, of cal0] obtain w' new where
    "main cal0 (739045, 8, 0, 0, 0) rng_count world0 = (Inr (), w')"
    "trace w' = trace world0 @ new" "sorted week1"
    "commits_made new = map (recorded cal0) week1"
    "files w' =
       (if week1 = [] then files world0
        else (files world0)(''dummy.txt'' \<mapsto>
               tracked world0 @ concat (map (\<lambda>d. fake_line (strftime cal0 d)) week1)))"
    by blast
  then show ?thesis using h tr tk ne by simp
qed


text \<open>
  C7. When the check of the working tree exits with a non-zero status, \<^verbatim>\<open>main\<close>
  prints the error line and returns: the check is the only external call, no file is
  written, no commit is recorded.
\<close>

theorem precondition_failure_no_mutation:
  assumes "tool w 0 = Exited rc" and "rc \<noteq> 0"
  shows "\<exists>w'. main cal now g w = (Inr (), w') \<and>
           trace w' = trace w @
             [Run revparse_argv (environ w) (Exited rc),
              Print ''Error: This script must be run inside a Git repository.''] \<and>
           files w' = files w \<and> environ w' = environ w \<and>
           commits_made (trace w') = commits_made (trace w) \<and>
           appended (trace w') = appended (trace w) \<and>
           runs (trace w') = runs (trace w) @ [revparse_argv]"
  using assms
  by (simp add: main_def subprocess_run_def Let_def check_result_def print_line_def
      revparse_argv_def commits_made_def appended_def runs_def)

theorem precondition_failure_no_mutation_witness:
  "tool world_no_repo 0 = Exited 128 \<and>
   fst (main cal0 (739045, 8, 0, 0, 0) rng_count world_no_repo) = Inr () \<and>
   files (snd (main cal0 (739045, 8, 0, 0, 0) rng_count world_no_repo)) = files world_no_repo \<and>
   commits_made (trace (snd (main cal0 (739045, 8, 0, 0, 0) rng_count world_no_repo))) = [] \<and>
   appended (trace (snd (main cal0 (739045, 8, 0, 0, 0) rng_count world_no_repo))) = [] \<and>
   runs (trace (snd (main cal0 (739045, 8, 0, 0, 0) rng_count world_no_repo))) = [revparse_argv]"
proof -
  have t: "tool world_no_repo 0 = Exited 128" by (simp add: world_no_repo_def world0_def)
  have rc: "(128::int) \<noteq> 0" by simp
  have tr: "trace world_no_repo = []" by (simp add: world_no_repo_def world0_def)
  from precondition_failure_no_mutation[OF t rc, of cal0 "(739045, 8, 0, 0, 0)" rng_count]
  obtain w' where
    "main cal0 (739045, 8, 0, 0, 0) rng_count world_no_repo = (Inr (), w')"
    "files w' = files world_no_repo"
    "commits_made (trace w') = commits_made (trace world_no_repo)"
    "appended (trace w') = appended (trace world_no_repo)"
    "runs (trace w') = runs (trace world_no_repo) @ [revparse_argv]"
    by blast
  then show ?thesis using t tr by (simp add: commits_made_def appended_def runs_def)
qed

text \<open>
  C8. The environment of the process is the same after \<^verbatim>\<open>make_commit\<close> and after
  \<^verbatim>\<open>main\<close> as before, whatever happens; every external call of a run sees that
  environment, a commit call with the two date variables set to its own date only.
\<close>

theorem commit_env_is_scoped:
  "environ (snd (make_commit cal d w)) = environ w \<and>
   environ (snd (main cal now g w)) = environ w \<and>
   (\<exists>new. trace (snd (main cal now g w)) = trace w @ new \<and>
          list_all (scoped_env (environ w)) new)"
proof -
  have "scoped_step w (snd (make_commit cal d w))"
    by (rule make_commit_scoped[of cal d w "fst (make_commit cal d w)"]) simp
  moreover have "scoped_step w (snd (main cal now g w))"
    by (rule main_scoped[of cal now g w "fst (main cal now g w)"]) simp
  ultimately show ?thesis by (simp add: scoped_step_def)
qed

theorem commit_env_is_scoped_witness:
  "environ (snd (make_commit cal0 (739038, 17, 9, 10, 0) world0)) = environ world0 \<and>
   environ (snd (main cal0 (739045, 8, 0, 0, 0) rng_count world0)) = environ world0"
  using commit_env_is_scoped[of cal0 "(739038, 17, 9, 10, 0)" world0 "(739045, 8, 0, 0, 0)" rng_count]
  by simp

text \<open>
  C9. When the append succeeds and the stage call or the commit call of
  \<^verbatim>\<open>make_commit\<close> fails, \<^verbatim>\<open>make_commit\<close> raises, the tracked file keeps the line
  appended (the append comes before the stage call in the trace), and no commit is
  recorded.
\<close>

theorem failed_commit_leaves_line_appended:
  assumes "disk w 0"
    and "check_result add_argv (tool w 0) = Inl e \<or>
         (tool w 0 = Exited 0 \<and>
          check_result (commit_argv (strftime cal d)) (tool w 1) = Inl e)"
  shows "\<exists>w' rest. make_commit cal d w = (Inl e, w') \<and>
           files w' ''dummy.txt'' = Some (tracked w @ fake_line (strftime cal d)) \<and>
           trace w' = trace w @
             Append ''dummy.txt'' (fake_line (strftime cal d)) #
             Run add_argv (environ w) (tool w 0) # rest \<and>
           commits_made (trace w') = commits_made (trace w)"
  using assms(2)
proof
  assume fl: "check_result add_argv (tool w 0) = Inl e"
  then have nz: "tool w 0 \<noteq> Exited 0" by auto
  from make_commit_stage_fails[OF assms(1) fl, of cal d] obtain w' where
    m: "make_commit cal d w = (Inl e, w')" and
    a: "advanced w 1 1 [Append ''dummy.txt'' (fake_line (strftime cal d)),
                        Run add_argv (environ w) (tool w 0)] w'" and
    f: "files w' = (files w)(''dummy.txt'' \<mapsto> tracked w @ fake_line (strftime cal d))"
    by blast
  have "trace w' = trace w @
          Append ''dummy.txt'' (fake_line (strftime cal d)) #
          Run add_argv (environ w) (tool w 0) # []"
    using a by (simp add: advanced_def)
  moreover from this have "commits_made (trace w') = commits_made (trace w)"
    using nz by (simp add: commits_made_simps)
  ultimately show ?thesis using m f by auto
next
  assume "tool w 0 = Exited 0 \<and>
          check_result (commit_argv (strftime cal d)) (tool w 1) = Inl e"
  then have t0: "tool w 0 = Exited 0"
    and fl: "check_result (commit_argv (strftime cal d)) (tool w 1) = Inl e"
    by auto
  from fl have nz: "tool w 1 \<noteq> Exited 0" by auto
  from make_commit_commit_fails[OF assms(1) t0 fl] obtain w' where
    m: "make_commit cal d w = (Inl e, w')" and
    a: "advanced w 2 1 [Append ''dummy.txt'' (fake_line (strftime cal d)),
                        Run add_argv (environ w) (Exited 0),
                        Run (commit_argv (strftime cal d))
                            (commit_env (environ w) (strftime cal d)) (tool w 1)] w'" and
    f: "files w' = (files w)(''dummy.txt'' \<mapsto> tracked w @ fake_line (strftime cal d))"
    by blast
  have "trace w' = trace w @
          Append ''dummy.txt'' (fake_line (strftime cal d)) #
          Run add_argv (environ w) (tool w 0) #
          [Run (commit_argv (strftime cal d))
               (commit_env (environ w) (strftime cal d)) (tool w 1)]"
    using a t0 by (simp add: advanced_def)
  moreover from this have "commits_made (trace w') = commits_made (trace w)"
    using nz t0 by (simp add: commits_made_simps)
  ultimately show ?thesis using m f by auto
qed

theorem failed_commit_leaves_line_appended_witness:
  "disk world_stage_fails 0 \<and>
   check_result add_argv (tool world_stage_fails 0) = Inl (CalledProcessError 1 add_argv) \<and>
   fst (make_commit cal0 (739038, 17, 9, 10, 0) world_stage_fails) =
     Inl (CalledProcessError 1 add_argv) \<and>
   files (snd (make_commit cal0 (739038, 17, 9, 10, 0) world_stage_fails)) ''dummy.txt'' =
     Some (fake_line (strftime cal0 (739038, 17, 9, 10, 0)))"
proof -
  have d: "disk world_stage_fails 0" by (simp add: world_stage_fails_def world0_def)
  have c: "check_result add_argv (tool world_stage_fails 0) =
             Inl (CalledProcessError 1 add_argv)"
    by (simp add: world_stage_fails_def world0_def check_result_def)
  have t: "tracked world_stage_fails = []"
    by (simp add: tracked_def world_stage_fails_def world0_def)
  from failed_commit_leaves_line_appended[OF d disjI1, OF c, of cal0 "(739038, 17, 9, 10, 0)"]
  obtain w' where
    "make_commit cal0 (739038, 17, 9, 10, 0) world_stage_fails =
       (Inl (CalledProcessError 1 add_argv), w')"
    "files w' ''dummy.txt'' =
       Some (tracked world_stage_fails @ fake_line (strftime cal0 (739038, 17, 9, 10, 0)))"
    by blast
  then show ?thesis using d c t by simp
qed

end
